theory Spec2Isabelle
  imports Main "HOL-Library.Sublist"
begin

section \<open>Strings: the library calls used by the route path\<close>

text \<open>
  Go strings are byte sequences holding UTF-8; \<open>string\<close> is a list of bytes.
  \<open>cmp.Or\<close> returns its first argument that is not the zero value, and the zero
  value (the empty string) when there is none.
\<close>

definition cmp_Or :: "string \<Rightarrow> string \<Rightarrow> string" where
  "cmp_Or a b = (if a \<noteq> [] then a else if b \<noteq> [] then b else [])"

definition TrimPrefix :: "string \<Rightarrow> string \<Rightarrow> string" where
  "TrimPrefix s p = (if prefix p s then drop (length p) s else s)"

fun Join :: "string list \<Rightarrow> string \<Rightarrow> string" where
  "Join [] sep = []"
| "Join [x] sep = x"
| "Join (x # y # ys) sep = x @ sep @ Join (y # ys) sep"

text \<open>
  \<open>strings.TrimSpace\<close> removes leading and trailing white space as Unicode defines
  it.  \<open>whiteSpace\<close> lists the UTF-8 encodings of the runes with the White_Space
  property: the six ASCII ones, U+0085, U+00A0, U+1680, U+2000 to U+200A, U+2028,
  U+2029, U+202F, U+205F and U+3000.
\<close>

definition whiteSpace :: "string list" where
  "whiteSpace =
     [[CHR 0x09], [CHR 0x0A], [CHR 0x0B], [CHR 0x0C], [CHR 0x0D], [CHR 0x20],
      [CHR 0xC2, CHR 0x85], [CHR 0xC2, CHR 0xA0],
      [CHR 0xE1, CHR 0x9A, CHR 0x80],
      [CHR 0xE2, CHR 0x80, CHR 0x80], [CHR 0xE2, CHR 0x80, CHR 0x81],
      [CHR 0xE2, CHR 0x80, CHR 0x82], [CHR 0xE2, CHR 0x80, CHR 0x83],
      [CHR 0xE2, CHR 0x80, CHR 0x84], [CHR 0xE2, CHR 0x80, CHR 0x85],
      [CHR 0xE2, CHR 0x80, CHR 0x86], [CHR 0xE2, CHR 0x80, CHR 0x87],
      [CHR 0xE2, CHR 0x80, CHR 0x88], [CHR 0xE2, CHR 0x80, CHR 0x89],
      [CHR 0xE2, CHR 0x80, CHR 0x8A],
      [CHR 0xE2, CHR 0x80, CHR 0xA8], [CHR 0xE2, CHR 0x80, CHR 0xA9],
      [CHR 0xE2, CHR 0x80, CHR 0xAF], [CHR 0xE2, CHR 0x81, CHR 0x9F],
      [CHR 0xE3, CHR 0x80, CHR 0x80]]"

text \<open>\<open>dropSpace n s\<close> strips leading white space from \<open>s\<close>; \<open>n\<close> bounds the
  number of runes looked at and is the length of the string where it is called.\<close>

fun dropSpace :: "string list \<Rightarrow> nat \<Rightarrow> string \<Rightarrow> string" where
  "dropSpace ws 0 s = s"
| "dropSpace ws (Suc n) s =
     (case find (\<lambda>w. prefix w s) ws of
        None \<Rightarrow> s
      | Some w \<Rightarrow> dropSpace ws n (drop (length w) s))"

definition TrimSpace :: "string \<Rightarrow> string" where
  "TrimSpace s =
     (let l = dropSpace whiteSpace (length s) s
      in rev (dropSpace (map rev whiteSpace) (length l) (rev l)))"


section \<open>Errors\<close>

text \<open>
  A Go \<open>error\<close> is either a leaf error, identified by its message, or the result of
  \<open>fmt.Errorf("<text>: %w", err)\<close>, which puts a text in front of the error it wraps.
\<close>

datatype error = ErrorString string | Errorf string error

fun Error :: "error \<Rightarrow> string" where
  "Error (ErrorString s) = s"
| "Error (Errorf p e) = p @ Error e"

section \<open>Guards and the dispatch handler (controller.go)\<close>

text \<open>
  A \<open>Guard\<close> has one method, \<open>Allow(gCtx) (bool, error)\<close>.  A guard is user code: it
  may read and change anything it can reach (the response writer is in its context), so
  it is a function on a world \<open>'w\<close> that returns its two results and the new world.
  The guard context \<open>'c\<close> is built by \<open>newGuardCtx\<close> for every request and is a
  parameter here.
\<close>

type_synonym ('c, 'w) Guard = "'c \<Rightarrow> 'w \<Rightarrow> (bool \<times> error option) \<times> 'w"

text \<open>\<open>http.Handler\<close>: serving a request changes the world.\<close>

type_synonym 'w Handler = "'w \<Rightarrow> 'w"

fun runGuards :: "'c \<Rightarrow> ('c, 'w) Guard list \<Rightarrow> 'w \<Rightarrow> (bool \<times> error option) \<times> 'w" where
  "runGuards gCtx [] w = ((True, None), w)"
| "runGuards gCtx (guard # guards) w =
     (case guard gCtx w of
        ((allowed, err), w') \<Rightarrow>
          if \<not> allowed \<or> err \<noteq> None then ((False, err), w')
          else runGuards gCtx guards w')"

definition StatusForbidden :: nat where "StatusForbidden = 403"
definition StatusInternalServerError :: nat where "StatusInternalServerError = 500"

text \<open>
  What the dispatch handler did with a request: it answered through
  \<open>http.Error(w, text, code)\<close>, or it handed the request to the route's handler.
\<close>

datatype reply = HttpError string nat | Served

text \<open>
  \<open>getHandler\<close> returns a closure over \<open>guards\<close> and \<open>handler\<close>.  \<open>handlerFunc\<close> is
  that closure: \<open>guards\<close> is the content of the captured slice when the request
  arrives.
\<close>

definition handlerFunc ::
  "('c, 'w) Guard list \<Rightarrow> 'w Handler \<Rightarrow> 'c \<Rightarrow> 'w \<Rightarrow> reply \<times> 'w" where
  "handlerFunc guards handler gCtx w =
     (case runGuards gCtx guards w of
        ((allowed, err), w') \<Rightarrow>
          if \<not> allowed then (HttpError ''Forbidden'' StatusForbidden, w')
          else if err \<noteq> None
            then (HttpError ''Internal Server Error'' StatusInternalServerError, w')
          else (Served, handler w'))"

section \<open>Slices of guards\<close>

text \<open>
  A Go slice is a pointer to a backing array, a length and a capacity, and \<open>append\<close>
  writes into the backing array when the capacity suffices: two slices over one array
  see each other's writes.  \<open>guards\<close> slices are the only slices of the program that
  are appended to in more than one place, so they get an explicit store: a list of
  backing arrays, addressed by position, whose cells hold a guard or nothing.  Every
  slice of the program starts at the first cell of its array.
\<close>

record slice =
  array :: nat
  len :: nat
  cap :: nat

definition nilSlice :: slice where
  "nilSlice = \<lparr>array = 0, len = 0, cap = 0\<rparr>"

definition cells :: "'g option list list \<Rightarrow> slice \<Rightarrow> 'g option list" where
  "cells h s = (if len s = 0 then [] else take (len s) (h ! array s))"

definition readSlice :: "'g option list list \<Rightarrow> slice \<Rightarrow> 'g list" where
  "readSlice h s = map the (cells h s)"

text \<open>
  \<open>append(s, xs...)\<close>.  When the capacity does not suffice, a new array is allocated
  and the elements are copied; the language leaves its capacity to the implementation,
  so the growth policy \<open>grow\<close> (old capacity, needed length) is a parameter.
\<close>

definition append_slice ::
  "(nat \<Rightarrow> nat \<Rightarrow> nat) \<Rightarrow> 'g option list list \<Rightarrow> slice \<Rightarrow> 'g list
     \<Rightarrow> slice \<times> 'g option list list" where
  "append_slice grow h s xs =
     (let need = len s + length xs in
      if xs = [] then (s, h)
      else if need \<le> cap s then
        (s\<lparr>len := need\<rparr>,
         h[array s := cells h s @ map Some xs @ drop need (h ! array s)])
      else
        (let c = max need (grow (cap s) need) in
         (\<lparr>array = length h, len = need, cap = c\<rparr>,
          h @ [cells h s @ map Some xs @ replicate (c - need) None])))"

text \<open>
  The growth of the gc runtime for a slice of fewer than 256 elements, before it rounds
  the size up to an allocation size class; for pointers the rounding leaves the
  capacities 1, 2 and 4 as they are.
\<close>

definition gcGrow :: "nat \<Rightarrow> nat \<Rightarrow> nat" where
  "gcGrow old need = (if old + old < need then need else old + old)"

section \<open>The container, a collaborator (go.uber.org/dig)\<close>

text \<open>
  Modelled from the spec: the container scope collaborator, which is a library and not
  part of the repository.  It is modelled by its contract: scopes form a tree; a
  constructor registered in a scope is visible from that scope and from the scopes
  below it; a constructor registered with \<open>dig.Export(true)\<close> is registered
  in the root and so visible from every scope; registering a second constructor for a
  type that the target scope already holds is an error; constructors tagged with a
  group are collected, in registration order, by an \<open>Invoke\<close> whose parameter asks for
  the group.

  A scope is the path from it up to the container: \<open>[]\<close> is the container, \<open>i # s\<close> is
  child number \<open>i\<close> of \<open>s\<close>.  The scopes above \<open>s\<close> are its suffixes.
\<close>

type_synonym token = string
type_synonym key = string
type_synonym scope = "nat list"

text \<open>
  A provider constructor, as far as the build looks at it: the token \<open>GetToken\<close>
  gives it, its Go type (what \<open>%T\<close> prints), whether the container accepts it as a
  constructor, and the type it provides, under which the container files it.
\<close>

record ProviderConstructor =
  pToken :: token
  pType :: string
  pValid :: bool
  pProvides :: key

text \<open>Modelled from the spec: \<open>GetToken\<close> (token.go is not among the sources), the
  stable identity of a constructor.\<close>

definition GetToken :: "ProviderConstructor \<Rightarrow> token" where
  "GetToken c = pToken c"

text \<open>
  A guard constructor and a controller constructor: the Go type, whether the container
  accepts it, the types of its parameters, and what it returns once they are resolved.
  The fields of \<open>RouteConfig\<close> (declared in route.go, which is not among the sources)
  are those the package documentation shows; \<open>Metadata\<close>, which only guards read, is
  left out of both configurations.
\<close>

record 'g GuardConstructor =
  gType :: string
  gValid :: bool
  gNeeds :: "key list"
  gResult :: "error + 'g"

record ('g, 'h) RouteConfig =
  RoutePattern :: string
  Method :: string
  Handler :: 'h
  RouteGuards :: "'g list"
  RouteGuardsCtors :: "'g GuardConstructor list"

record ('g, 'h) ControllerConfig =
  Pattern :: string
  RoutesCfgs :: "('g, 'h) RouteConfig list"
  Guards :: "'g list"
  GuardsCtors :: "'g GuardConstructor list"

record ('g, 'h) ControllerConstructor =
  cType :: string
  cValid :: bool
  cNeeds :: "key list"
  cResult :: "error + ('g, 'h) ControllerConfig"

datatype ('g, 'h) member =
  GuardMember "'g GuardConstructor"
| ControllerMember "('g, 'h) ControllerConstructor"

type_synonym group = string

definition groupPipes :: group where "groupPipes = ''pipes''"
definition groupGuards :: group where "groupGuards = ''guards''"
definition groupFilters :: group where "groupFilters = ''filters''"
definition groupProviders :: group where "groupProviders = ''providers''"
definition groupControllers :: group where "groupControllers = ''controllers''"
definition groupInterceptors :: group where "groupInterceptors = ''interceptors''"

text \<open>The calls the container has accepted, in order.\<close>

datatype call =
  CallProvide scope ProviderConstructor bool
| CallProvideGroup scope group string
| CallInvoke scope
| CallScope scope string scope

text \<open>
  The state of the program during the build: the container (the number of scopes
  created below each scope, the constructors registered in each scope, the members of
  each group of each scope, and the calls accepted so far), the backing arrays of the
  guard slices, and the patterns and handlers registered with the server's mux.  A
  registered handler is the closure \<open>getHandler\<close> returns, kept as the two variables it
  captures: the \<open>guards\<close> slice and the route's handler.
\<close>

record ('g, 'h) state =
  subscopes :: "scope \<Rightarrow> nat"
  providers :: "scope \<Rightarrow> ProviderConstructor list"
  groups :: "scope \<Rightarrow> group \<Rightarrow> ('g, 'h) member list"
  calls :: "call list"
  arrays :: "'g option list list"
  mux :: "(string \<times> slice \<times> 'h) list"

definition dig_New :: "('g, 'h) state" where
  "dig_New = \<lparr>subscopes = (\<lambda>s. 0), providers = (\<lambda>s. []), groups = (\<lambda>s g. []),
     calls = [], arrays = [], mux = []\<rparr>"

definition Scope :: "scope \<Rightarrow> string \<Rightarrow> ('g, 'h) state \<Rightarrow> scope \<times> ('g, 'h) state" where
  "Scope s name st =
     (let c = subscopes st s # s
      in (c, st\<lparr>subscopes := (subscopes st)(s := Suc (subscopes st s)),
                 calls := calls st @ [CallScope s name c]\<rparr>))"

definition Provide ::
  "scope \<Rightarrow> ProviderConstructor \<Rightarrow> bool \<Rightarrow> ('g, 'h) state \<Rightarrow> error + ('g, 'h) state" where
  "Provide s ctor exported st =
     (let t = (if exported then [] else s) in
      if \<not> pValid ctor then Inl (ErrorString ''bad argument passed to Provide'')
      else if pProvides ctor \<in> set (map pProvides (providers st t))
        then Inl (ErrorString (''cannot provide '' @ pProvides ctor @ '': already provided''))
      else Inr (st\<lparr>providers := (providers st)(t := providers st t @ [ctor]),
                   calls := calls st @ [CallProvide s ctor exported]\<rparr>))"

definition memberValid :: "('g, 'h) member \<Rightarrow> bool" where
  "memberValid x = (case x of GuardMember g \<Rightarrow> gValid g | ControllerMember c \<Rightarrow> cValid c)"

definition memberType :: "('g, 'h) member \<Rightarrow> string" where
  "memberType x = (case x of GuardMember g \<Rightarrow> gType g | ControllerMember c \<Rightarrow> cType c)"

definition ProvideGroup ::
  "scope \<Rightarrow> group \<Rightarrow> ('g, 'h) member \<Rightarrow> ('g, 'h) state \<Rightarrow> error + ('g, 'h) state" where
  "ProvideGroup s g x st =
     (if \<not> memberValid x then Inl (ErrorString ''bad argument passed to Provide'')
      else Inr (st\<lparr>groups := (groups st)(s := (groups st s)(g := groups st s g @ [x])),
                   calls := calls st @ [CallProvideGroup s g (memberType x)]\<rparr>))"

definition resolvable :: "('g, 'h) state \<Rightarrow> scope \<Rightarrow> key \<Rightarrow> bool" where
  "resolvable st s k = list_ex (\<lambda>a. k \<in> set (map pProvides (providers st a))) (suffixes s)"

text \<open>Calling a constructor from scope \<open>s\<close>: its parameters must be resolvable there.\<close>

definition construct :: "('g, 'h) state \<Rightarrow> scope \<Rightarrow> key list \<Rightarrow> error + 'v \<Rightarrow> error + 'v" where
  "construct st s needs result =
     (case filter (\<lambda>k. \<not> resolvable st s k) needs of
        [] \<Rightarrow> result
      | k # ks \<Rightarrow> Inl (ErrorString (''missing type: '' @ k)))"

fun allOrError :: "(error + 'v) list \<Rightarrow> error + 'v list" where
  "allOrError [] = Inr []"
| "allOrError (x # xs) =
     (case x of
        Inl e \<Rightarrow> Inl e
      | Inr v \<Rightarrow> (case allOrError xs of Inl e \<Rightarrow> Inl e | Inr vs \<Rightarrow> Inr (v # vs)))"

text \<open>
  \<open>Invoke\<close> with a function of one parameter.  For \<open>guardGroupInput\<close> and
  \<open>controllerGroupInput\<close> the parameter is the group's values: every constructor of the
  group is called.  For \<open>*HttpServer\<close> the parameter must be resolvable.  The function
  that \<open>Invoke\<close> then runs is the rest of the caller.
\<close>

definition Invoke_guardGroupInput ::
  "scope \<Rightarrow> ('g, 'h) state \<Rightarrow> error + ('g list \<times> ('g, 'h) state)" where
  "Invoke_guardGroupInput s st =
     (case allOrError (concat (map (\<lambda>x. case x of
              GuardMember g \<Rightarrow> [construct st s (gNeeds g) (gResult g)]
            | ControllerMember c \<Rightarrow> []) (groups st s groupGuards))) of
        Inl e \<Rightarrow> Inl e
      | Inr gs \<Rightarrow> Inr (gs, st\<lparr>calls := calls st @ [CallInvoke s]\<rparr>))"

definition Invoke_controllerGroupInput ::
  "scope \<Rightarrow> ('g, 'h) state \<Rightarrow> error + (('g, 'h) ControllerConfig list \<times> ('g, 'h) state)" where
  "Invoke_controllerGroupInput s st =
     (case allOrError (concat (map (\<lambda>x. case x of
              ControllerMember c \<Rightarrow> [construct st s (cNeeds c) (cResult c)]
            | GuardMember g \<Rightarrow> []) (groups st s groupControllers))) of
        Inl e \<Rightarrow> Inl e
      | Inr cs \<Rightarrow> Inr (cs, st\<lparr>calls := calls st @ [CallInvoke s]\<rparr>))"

definition HttpServerKey :: key where
  "HttpServerKey = ''*godi.HttpServer''"

definition Invoke_HttpServer :: "scope \<Rightarrow> ('g, 'h) state \<Rightarrow> error + ('g, 'h) state" where
  "Invoke_HttpServer s st =
     (if resolvable st s HttpServerKey then Inr (st\<lparr>calls := calls st @ [CallInvoke s]\<rparr>)
      else Inl (ErrorString (''missing type: '' @ HttpServerKey)))"

section \<open>Controllers and routes (controller.go)\<close>

text \<open>
  A \<open>Controller\<close> is what its \<open>Config()\<close> returns.  The \<open>route\<close> struct extends the
  route's configuration with the resolved route guards; the \<open>controller\<close> struct holds
  the controller, the module it belongs to (of which only the scope is used), its routes
  and its resolved guards.
\<close>

record ('g, 'h) route = "('g, 'h) RouteConfig" +
  rguards :: slice

record ('g, 'h) controller =
  Controller :: "('g, 'h) ControllerConfig"
  module_scope :: scope
  routes :: "('g, 'h) route list"
  guards :: slice

text \<open>
  route.go and guard.go are not among the sources.  \<open>newRoute\<close> and \<open>newGuard\<close> are
  parameters of the build, with \<open>guardType\<close> (what \<open>%T\<close> prints for a guard) and the
  growth policy of \<open>append\<close>.
\<close>

record ('g, 'h) env =
  grow :: "nat \<Rightarrow> nat \<Rightarrow> nat"
  guardType :: "'g \<Rightarrow> string"
  newGuard :: "'g \<Rightarrow> error + 'g"
  newRoute :: "('g, 'h) RouteConfig \<Rightarrow> ('g, 'h) controller \<Rightarrow> ('g, 'h) state
                 \<Rightarrow> error + (('g, 'h) route \<times> ('g, 'h) state)"

definition defaultPath :: string where "defaultPath = ''/''"
definition pathSeparator :: string where "pathSeparator = ''/''"

text \<open>\<open>fmt.Sprintf("%s %s", a, b)\<close> is \<open>a\<close>, a blank, \<open>b\<close>.\<close>

definition getPath :: "('g, 'h) controller \<Rightarrow> ('g, 'h) route \<Rightarrow> string" where
  "getPath c r =
     (let root = cmp_Or (Pattern (Controller c)) defaultPath;
          path = TrimPrefix (RoutePattern r) pathSeparator
      in TrimSpace (Method r @ '' '' @ Join [root, path] pathSeparator))"

definition getGuards ::
  "('g, 'h) env \<Rightarrow> ('g, 'h) controller \<Rightarrow> ('g, 'h) route \<Rightarrow> 'g option list list
     \<Rightarrow> slice \<times> 'g option list list" where
  "getGuards E c r h = append_slice (grow E) h (guards c) (readSlice h (rguards r))"

definition getHandler ::
  "('g, 'h) env \<Rightarrow> ('g, 'h) controller \<Rightarrow> ('g, 'h) route \<Rightarrow> ('g, 'h) state
     \<Rightarrow> (slice \<times> 'h) \<times> ('g, 'h) state" where
  "getHandler E c r st =
     (case getGuards E c r (arrays st) of
        (gs, h) \<Rightarrow> ((gs, Handler r), st\<lparr>arrays := h\<rparr>))"

text \<open>Serving a request with a registered handler: the closure reads its \<open>guards\<close>
  slice in the store as it is then.\<close>

definition ServeHTTP ::
  "(('c, 'w) Guard, 'w Handler) state \<Rightarrow> slice \<times> 'w Handler \<Rightarrow> 'c \<Rightarrow> 'w \<Rightarrow> reply \<times> 'w" where
  "ServeHTTP st f gCtx w = handlerFunc (readSlice (arrays st) (fst f)) (snd f) gCtx w"

fun registerRoutes_loop ::
  "('g, 'h) env \<Rightarrow> ('g, 'h) controller \<Rightarrow> ('g, 'h) RouteConfig list \<Rightarrow> ('g, 'h) state
     \<Rightarrow> error + (('g, 'h) controller \<times> ('g, 'h) state)" where
  "registerRoutes_loop E c [] st = Inr (c, st)"
| "registerRoutes_loop E c (rCfg # rest) st =
     (case newRoute E rCfg c st of
        Inl err \<Rightarrow> Inl err
      | Inr (r, st1) \<Rightarrow>
          (let c1 = c\<lparr>routes := routes c @ [r]\<rparr>;
               path = getPath c1 r
           in case getHandler E c1 r st1 of
                (f, st2) \<Rightarrow>
                  registerRoutes_loop E c1 rest (st2\<lparr>mux := mux st2 @ [(path, f)]\<rparr>)))"

definition registerRoutes ::
  "('g, 'h) env \<Rightarrow> ('g, 'h) controller \<Rightarrow> ('g, 'h) state
     \<Rightarrow> error + (('g, 'h) controller \<times> ('g, 'h) state)" where
  "registerRoutes E c st =
     (case Invoke_HttpServer (module_scope c) st of
        Inl err \<Rightarrow> Inl err
      | Inr st1 \<Rightarrow> registerRoutes_loop E c (RoutesCfgs (Controller c)) st1)"

text \<open>\<open>func() Guard { return grd }\<close>, the constructor the first loop of
  \<open>_registerGuards\<close> registers for a guard instance.\<close>

definition guardInstance :: "'g \<Rightarrow> 'g GuardConstructor" where
  "guardInstance grd =
     \<lparr>gType = ''func() godi.Guard'', gValid = True, gNeeds = [], gResult = Inr grd\<rparr>"

fun provideGuards ::
  "('g, 'h) env \<Rightarrow> scope \<Rightarrow> 'g list \<Rightarrow> ('g, 'h) state \<Rightarrow> error + ('g, 'h) state" where
  "provideGuards E s [] st = Inr st"
| "provideGuards E s (grd # rest) st =
     (case ProvideGroup s groupGuards (GuardMember (guardInstance grd)) st of
        Inl err \<Rightarrow>
          Inl (Errorf (''error providing controller guard ('' @ guardType E grd @ ''): '') err)
      | Inr st1 \<Rightarrow> provideGuards E s rest st1)"

fun provideGuardsCtors ::
  "scope \<Rightarrow> 'g GuardConstructor list \<Rightarrow> ('g, 'h) state \<Rightarrow> error + ('g, 'h) state" where
  "provideGuardsCtors s [] st = Inr st"
| "provideGuardsCtors s (grdCtor # rest) st =
     (case ProvideGroup s groupGuards (GuardMember grdCtor) st of
        Inl err \<Rightarrow>
          Inl (Errorf (''error providing controller guard ('' @ gType grdCtor @ ''): '') err)
      | Inr st1 \<Rightarrow> provideGuardsCtors s rest st1)"

fun appendGuards ::
  "('g, 'h) env \<Rightarrow> ('g, 'h) controller \<Rightarrow> 'g list \<Rightarrow> ('g, 'h) state
     \<Rightarrow> error + (('g, 'h) controller \<times> ('g, 'h) state)" where
  "appendGuards E c [] st = Inr (c, st)"
| "appendGuards E c (grd # rest) st =
     (case newGuard E grd of
        Inl err \<Rightarrow> Inl err
      | Inr g \<Rightarrow>
          (case append_slice (grow E) (arrays st) (guards c) [g] of
             (sl, h) \<Rightarrow> appendGuards E (c\<lparr>guards := sl\<rparr>) rest (st\<lparr>arrays := h\<rparr>)))"

definition registerGuards ::
  "('g, 'h) env \<Rightarrow> ('g, 'h) controller \<Rightarrow> ('g, 'h) state
     \<Rightarrow> error + (('g, 'h) controller \<times> ('g, 'h) state)" where
  "registerGuards E c st =
     (case provideGuards E (module_scope c) (Guards (Controller c)) st of
        Inl err \<Rightarrow> Inl err
      | Inr st1 \<Rightarrow>
          (case provideGuardsCtors (module_scope c) (GuardsCtors (Controller c)) st1 of
             Inl err \<Rightarrow> Inl err
           | Inr st2 \<Rightarrow>
               (case Invoke_guardGroupInput (module_scope c) st2 of
                  Inl err \<Rightarrow> Inl err
                | Inr (input, st3) \<Rightarrow> appendGuards E c input st3)))"

definition newController ::
  "('g, 'h) env \<Rightarrow> ('g, 'h) ControllerConfig \<Rightarrow> scope \<Rightarrow> ('g, 'h) state
     \<Rightarrow> error + (('g, 'h) controller \<times> ('g, 'h) state)" where
  "newController E c m st =
     (let ctrl = \<lparr>Controller = c, module_scope = m, routes = [], guards = nilSlice\<rparr>
      in case registerGuards E ctrl st of
           Inl err \<Rightarrow> Inl (Errorf ''error registering guards: '' err)
         | Inr (ctrl1, st1) \<Rightarrow>
             (case registerRoutes E ctrl1 st1 of
                Inl err \<Rightarrow> Inl err
              | Inr (ctrl2, st2) \<Rightarrow> Inr (ctrl2, st2)))"

section \<open>Modules (module.go)\<close>

text \<open>
  A \<open>Module\<close> is what its \<open>Config()\<close> returns, with the token \<open>GetToken\<close> gives the
  module and its Go type.  Provider instances (\<open>Providers\<close>, \<open>Exports\<close>) are given by
  their types.
\<close>

datatype ('g, 'h) Module = ModuleConfig
  (mToken: token)
  (mType: string)
  (IsGlobal: bool)
  (Imports: "('g, 'h) Module list")
  (Exports: "key list")
  (ExportsCtors: "ProviderConstructor list")
  (Providers: "key list")
  (ProvidersCtors: "ProviderConstructor list")
  (Controllers: "('g, 'h) ControllerConfig list")
  (ControllersCtors: "('g, 'h) ControllerConstructor list")

text \<open>
  The \<open>module\<close> struct.  \<open>parent\<close> is a pointer to the importing module; the build
  reads only its scope, which stands for it here.  \<open>mimports\<close> is the field \<open>imports\<close>.
\<close>

datatype ('g, 'h) module = mk_module
  (Module: "('g, 'h) Module")
  (scope: scope)
  (parent: "scope option")
  (mimports: "('g, 'h) module list")

definition isExportedProvider :: "('g, 'h) Module \<Rightarrow> ProviderConstructor \<Rightarrow> bool" where
  "isExportedProvider m provider =
     list_ex (\<lambda>export. GetToken export = GetToken provider) (ExportsCtors m)"

fun registerProviders_loop ::
  "('g, 'h) Module \<Rightarrow> scope \<Rightarrow> ProviderConstructor list \<Rightarrow> ('g, 'h) state
     \<Rightarrow> error + ('g, 'h) state" where
  "registerProviders_loop m s [] st = Inr st"
| "registerProviders_loop m s (pvdCtor # rest) st =
     (let isGlobExport = (IsGlobal m \<and> isExportedProvider m pvdCtor)
      in case Provide s pvdCtor isGlobExport st of
           Inl err \<Rightarrow>
             Inl (Errorf (''error providing provider ('' @ pType pvdCtor @ ''): '') err)
         | Inr st1 \<Rightarrow> registerProviders_loop m s rest st1)"

definition registerProviders ::
  "('g, 'h) Module \<Rightarrow> scope \<Rightarrow> ('g, 'h) state \<Rightarrow> error + ('g, 'h) state" where
  "registerProviders m s st = registerProviders_loop m s (ProvidersCtors m) st"

fun provideControllers ::
  "scope \<Rightarrow> ('g, 'h) ControllerConstructor list \<Rightarrow> ('g, 'h) state
     \<Rightarrow> error + ('g, 'h) state" where
  "provideControllers s [] st = Inr st"
| "provideControllers s (ctrlCtor # rest) st =
     (case ProvideGroup s groupControllers (ControllerMember ctrlCtor) st of
        Inl err \<Rightarrow>
          Inl (Errorf (''error providing controller ('' @ cType ctrlCtor @ ''): '') err)
      | Inr st1 \<Rightarrow> provideControllers s rest st1)"

text \<open>The function \<open>_registerControllers\<close> invokes.  The source drops the controllers
  it builds (the registered handlers keep them alive); they are returned here so that
  they can be looked at.\<close>

fun newControllers ::
  "('g, 'h) env \<Rightarrow> scope \<Rightarrow> ('g, 'h) ControllerConfig list \<Rightarrow> ('g, 'h) state
     \<Rightarrow> error + (('g, 'h) controller list \<times> ('g, 'h) state)" where
  "newControllers E m [] st = Inr ([], st)"
| "newControllers E m (c # rest) st =
     (case newController E c m st of
        Inl err \<Rightarrow> Inl err
      | Inr (ctrl, st1) \<Rightarrow>
          (case newControllers E m rest st1 of
             Inl err \<Rightarrow> Inl err
           | Inr (ctrls, st2) \<Rightarrow> Inr (ctrl # ctrls, st2)))"

definition registerControllers ::
  "('g, 'h) env \<Rightarrow> ('g, 'h) Module \<Rightarrow> scope \<Rightarrow> ('g, 'h) state
     \<Rightarrow> error + (('g, 'h) controller list \<times> ('g, 'h) state)" where
  "registerControllers E m s st =
     (case provideControllers s (ControllersCtors m) st of
        Inl err \<Rightarrow> Inl err
      | Inr st1 \<Rightarrow>
          (case Invoke_controllerGroupInput s st1 of
             Inl err \<Rightarrow> Inl err
           | Inr (input, st2) \<Rightarrow> newControllers E s input st2))"

fun registerExportedProviders_loop ::
  "scope \<Rightarrow> ProviderConstructor list \<Rightarrow> ('g, 'h) state \<Rightarrow> error + ('g, 'h) state" where
  "registerExportedProviders_loop ps [] st = Inr st"
| "registerExportedProviders_loop ps (pvdCtor # rest) st =
     (case Provide ps pvdCtor False st of
        Inl err \<Rightarrow>
          Inl (Errorf (''error providing export ('' @ pType pvdCtor @ ''): '') err)
      | Inr st1 \<Rightarrow> registerExportedProviders_loop ps rest st1)"

definition registerExportedProviders ::
  "('g, 'h) module \<Rightarrow> ('g, 'h) state \<Rightarrow> error + ('g, 'h) state" where
  "registerExportedProviders m st =
     (case parent m of
        None \<Rightarrow> Inr st
      | Some ps \<Rightarrow>
          if IsGlobal (Module m) then Inr st
          else registerExportedProviders_loop ps (ExportsCtors (Module m)) st)"

definition newChildScope ::
  "('g, 'h) module \<Rightarrow> ('g, 'h) Module \<Rightarrow> ('g, 'h) state \<Rightarrow> scope \<times> ('g, 'h) state" where
  "newChildScope m imported st = Scope (scope m) (mToken imported) st"

text \<open>\<open>assignParent\<close> changes the module and its new parent; both are returned.\<close>

definition assignParent ::
  "('g, 'h) module \<Rightarrow> ('g, 'h) module option
     \<Rightarrow> error + (('g, 'h) module \<times> ('g, 'h) module option)" where
  "assignParent m p =
     (case p of
        None \<Rightarrow> Inr (m, None)
      | Some pm \<Rightarrow>
          (let m1 = mk_module (Module m) (scope m) (Some (scope pm)) (mimports m)
           in Inr (m1, Some (mk_module (Module pm) (scope pm) (parent pm) (mimports pm @ [m1])))))"

function newModule ::
  "('g, 'h) env \<Rightarrow> ('g, 'h) Module \<Rightarrow> scope \<Rightarrow> ('g, 'h) state
     \<Rightarrow> error + (('g, 'h) module \<times> ('g, 'h) state)"
and newModule_imports ::
  "('g, 'h) env \<Rightarrow> ('g, 'h) module \<Rightarrow> ('g, 'h) Module list \<Rightarrow> ('g, 'h) state
     \<Rightarrow> error + (('g, 'h) module \<times> ('g, 'h) state)" where
  "newModule E m s st =
     (let modl = mk_module m s None []
      in case registerProviders m s st of
           Inl err \<Rightarrow> Inl (Errorf ''error registering providers: '' err)
         | Inr st1 \<Rightarrow>
             (case registerControllers E m s st1 of
                Inl err \<Rightarrow> Inl (Errorf ''error registering controllers: '' err)
              | Inr (ctrls, st2) \<Rightarrow> newModule_imports E modl (Imports m) st2))"
| "newModule_imports E modl [] st = Inr (modl, st)"
| "newModule_imports E modl (imported # rest) st =
     (case newChildScope modl imported st of
        (s, st0) \<Rightarrow>
          (case newModule E imported s st0 of
             Inl err \<Rightarrow> Inl (Errorf (''error building module ('' @ mType imported @ ''): '') err)
           | Inr (importedMod, st1) \<Rightarrow>
               (case assignParent importedMod (Some modl) of
                  Inl err \<Rightarrow> Inl err
                | Inr (importedMod1, p) \<Rightarrow>
                    (case registerExportedProviders importedMod1 st1 of
                       Inl err \<Rightarrow> Inl (Errorf ''error registering exports: '' err)
                     | Inr st2 \<Rightarrow>
                         newModule_imports E (case p of None \<Rightarrow> modl | Some modl1 \<Rightarrow> modl1)
                           rest st2))))"
  by pat_completeness auto

termination
proof -
  have I: "size_list size (Imports m) \<le> size m" for m :: "('g, 'h) Module"
    by (cases m) simp
  show ?thesis
    by (relation "measure (\<lambda>x. case x of
          Inl (E, m, s, st) \<Rightarrow> 2 * size m + 1
        | Inr (E, modl, ms, st) \<Rightarrow> 2 * size_list size ms)")
       (auto simp: I less_Suc_eq_le)
qed

section \<open>The application (godi.go)\<close>

definition HttpServerCtor :: ProviderConstructor where
  "HttpServerCtor = \<lparr>pToken = ''func() *godi.HttpServer'', pType = ''func() *godi.HttpServer'',
     pValid = True, pProvides = HttpServerKey\<rparr>"

text \<open>\<open>New\<close> returns the \<open>App\<close>: the root module, with the container and the server
  in the state.\<close>

definition New ::
  "('g, 'h) env \<Rightarrow> ('g, 'h) Module \<Rightarrow> error + (('g, 'h) module \<times> ('g, 'h) state)" where
  "New E m =
     (case Provide [] HttpServerCtor False dig_New of
        Inl err \<Rightarrow> Inl err
      | Inr st \<Rightarrow>
          (case Scope [] (mToken m) st of
             (s, st1) \<Rightarrow>
               (case newModule E m s st1 of
                  Inl err \<Rightarrow> Inl err
                | Inr (modl, st2) \<Rightarrow> Inr (modl, st2))))"

section \<open>Routes (route.go)\<close>

text \<open>
  Modelled from the spec: \<open>newRoute\<close> (route.go is not among the sources).  A route is
  its declaration "plus its resolved route-scoped guard instances", which are "resolved
  once when each route is built": the declared guard instances, then what the declared
  guard constructors return in the controller's module scope, each through \<open>newGuard\<close>,
  appended one by one to the route's \<open>guards\<close>.
\<close>

fun appendRouteGuards ::
  "('g, 'h) env \<Rightarrow> ('g, 'h) route \<Rightarrow> 'g list \<Rightarrow> ('g, 'h) state
     \<Rightarrow> error + (('g, 'h) route \<times> ('g, 'h) state)" where
  "appendRouteGuards E r [] st = Inr (r, st)"
| "appendRouteGuards E r (grd # rest) st =
     (case newGuard E grd of
        Inl err \<Rightarrow> Inl err
      | Inr g \<Rightarrow>
          (case append_slice (grow E) (arrays st) (rguards r) [g] of
             (sl, h) \<Rightarrow> appendRouteGuards E (r\<lparr>rguards := sl\<rparr>) rest (st\<lparr>arrays := h\<rparr>)))"

definition newRoute_spec ::
  "('g, 'h) env \<Rightarrow> ('g, 'h) RouteConfig \<Rightarrow> ('g, 'h) controller \<Rightarrow> ('g, 'h) state
     \<Rightarrow> error + (('g, 'h) route \<times> ('g, 'h) state)" where
  "newRoute_spec E cfg c st =
     (case allOrError (map Inr (RouteGuards cfg)
            @ map (\<lambda>g. construct st (module_scope c) (gNeeds g) (gResult g))
                (RouteGuardsCtors cfg)) of
        Inl err \<Rightarrow> Inl err
      | Inr input \<Rightarrow>
          appendRouteGuards E
            \<lparr>RoutePattern = RoutePattern cfg, Method = Method cfg, Handler = Handler cfg,
             RouteGuards = RouteGuards cfg, RouteGuardsCtors = RouteGuardsCtors cfg,
             rguards = nilSlice\<rparr> input st)"

text \<open>The build environment of the examples: the growth of the gc runtime, a
  \<open>newGuard\<close> that wraps the guard it is given, and the \<open>newRoute\<close> above.\<close>

definition gcEnv :: "('g, 'h) env" where
  "gcEnv = \<lparr>grow = gcGrow, guardType = (\<lambda>g. ''godi.Guard''), newGuard = Inr,
     newRoute = newRoute_spec \<lparr>grow = gcGrow, guardType = (\<lambda>g. ''godi.Guard''),
       newGuard = Inr, newRoute = (\<lambda>cfg c st. Inl (ErrorString ''unused''))\<rparr>\<rparr>"

section \<open>Example applications\<close>

text \<open>A guard that allows every request and leaves its name in the world, and a
  handler that leaves its name there.\<close>

definition namedGuard :: "string \<Rightarrow> (unit, string list) Guard" where
  "namedGuard n = (\<lambda>gCtx w. ((True, None), w @ [n]))"

definition namedHandler :: "string \<Rightarrow> string list Handler" where
  "namedHandler n = (\<lambda>w. w @ [n])"

text \<open>An application of one module with one controller: three controller guards
  \<open>A\<close>, \<open>B\<close>, \<open>C\<close>, a route \<open>GET /a/x\<close> guarded by \<open>G1\<close> and a route \<open>GET /a/y\<close>
  guarded by \<open>G2\<close>.\<close>

definition twoRoutes :: "((unit, string list) Guard, string list Handler) Module" where
  "twoRoutes = ModuleConfig ''app.Module'' ''*app.Module'' False [] [] [] [] [] []
     [\<lparr>cType = ''func() *app.Controller'', cValid = True, cNeeds = [],
       cResult = Inr \<lparr>Pattern = ''/a'',
         RoutesCfgs =
           [\<lparr>RoutePattern = ''/x'', Method = ''GET'', Handler = namedHandler ''x'',
             RouteGuards = [namedGuard ''G1''], RouteGuardsCtors = []\<rparr>,
            \<lparr>RoutePattern = ''/y'', Method = ''GET'', Handler = namedHandler ''y'',
             RouteGuards = [namedGuard ''G2''], RouteGuardsCtors = []\<rparr>],
         Guards = [namedGuard ''A'', namedGuard ''B'', namedGuard ''C''],
         GuardsCtors = []\<rparr>\<rparr>]"

text \<open>Three applications whose root imports two modules.  In \<open>siblings\<close> the first
  import provides and exports a service and is not global.  In \<open>globalApp\<close> the first
  import is global, exports its configuration and keeps a secret.  In \<open>valuesApp\<close> the
  first import also declares, as a value, a provider and export of type
  \<open>*a.Values\<close>.\<close>

definition serviceCtor :: "string \<Rightarrow> ProviderConstructor" where
  "serviceCtor t = \<lparr>pToken = ''New'' @ t, pType = ''func() *'' @ t, pValid = True,
     pProvides = ''*'' @ t\<rparr>"

definition plainModule :: "(string, string) Module" where
  "plainModule = ModuleConfig ''b.Module'' ''*b.Module'' False [] [] [] [] [] [] []"

definition exportingModule :: "(string, string) Module" where
  "exportingModule = ModuleConfig ''a.Module'' ''*a.Module'' False [] []
     [serviceCtor ''a.Service''] [] [serviceCtor ''a.Service''] [] []"

definition siblings :: "(string, string) Module" where
  "siblings = ModuleConfig ''app.Module'' ''*app.Module'' False
     [exportingModule, plainModule] [] [] [] [] [] []"

definition globalModule :: "(string, string) Module" where
  "globalModule = ModuleConfig ''g.Module'' ''*g.Module'' True [] []
     [serviceCtor ''g.Config''] [] [serviceCtor ''g.Config'', serviceCtor ''g.Secret''] [] []"

definition globalApp :: "(string, string) Module" where
  "globalApp = ModuleConfig ''app.Module'' ''*app.Module'' False
     [globalModule, plainModule] [] [] [] [] [] []"

definition valuesModule :: "(string, string) Module" where
  "valuesModule = ModuleConfig ''a.Module'' ''*a.Module'' False [] [''*a.Values'']
     [serviceCtor ''a.Service''] [''*a.Values''] [serviceCtor ''a.Service''] [] []"

definition valuesApp :: "(string, string) Module" where
  "valuesApp = ModuleConfig ''app.Module'' ''*app.Module'' False
     [valuesModule, plainModule] [] [] [] [] [] []"



text \<open>A module with two controllers: the first declares the guard \<open>A\<close> and a route
  guarded by \<open>R\<close>, the second declares the guard \<open>B\<close> and a constructor that returns
  the guard \<open>C\<close>; and the container once \<open>New\<close> has provided the server.\<close>

definition twoControllers :: "(string, string) Module" where
  "twoControllers = ModuleConfig ''app.Module'' ''*app.Module'' False [] [] [] [] [] []
     [\<lparr>cType = ''func() *app.First'', cValid = True, cNeeds = [],
       cResult = Inr \<lparr>Pattern = ''/a'',
         RoutesCfgs = [\<lparr>RoutePattern = ''/x'', Method = ''GET'', Handler = ''x'',
           RouteGuards = [''R''], RouteGuardsCtors = []\<rparr>],
         Guards = [''A''], GuardsCtors = []\<rparr>\<rparr>,
      \<lparr>cType = ''func() *app.Second'', cValid = True, cNeeds = [],
       cResult = Inr \<lparr>Pattern = ''/b'', RoutesCfgs = [], Guards = [''B''],
         GuardsCtors = [\<lparr>gType = ''func() *app.Guard'', gValid = True, gNeeds = [],
           gResult = Inr ''C''\<rparr>]\<rparr>\<rparr>]"

definition serverProvided :: "(string, string) state" where
  "serverProvided = projr (Provide [] HttpServerCtor False dig_New)"

text \<open>Every registered pattern with what serving a request to it does to an empty
  world, once the application is built.\<close>

definition served ::
  "((unit, string list) Guard, string list Handler) Module
     \<Rightarrow> error + (string \<times> reply \<times> string list) list" where
  "served m =
     (case New gcEnv m of
        Inl err \<Rightarrow> Inl err
      | Inr (modl, st) \<Rightarrow> Inr (map (\<lambda>(p, f). (p, ServeHTTP st f () [])) (mux st)))"

section \<open>What the theorems assume of \<open>newRoute\<close>\<close>

text \<open>Building a route registers no provider.\<close>

definition routes_keep_providers :: "('g, 'h) env \<Rightarrow> bool" where
  "routes_keep_providers E =
     (\<forall>cfg c st r st'. newRoute E cfg c st = Inr (r, st') \<longrightarrow> providers st' = providers st)"

section \<open>Where the build registers the constructors\<close>

text \<open>
  The registrations a built module tree stands for, in the order of the build, each with
  the scope it goes to: the providers of a module go to its own scope, or to the root
  when the module is global and exports them; the exports of a module that is not global
  go to the scope of the module that imports it, once that module is built.
\<close>

fun placements :: "('g, 'h) module \<Rightarrow> (scope \<times> ProviderConstructor) list" where
  "placements (mk_module m s p kids) =
     map (\<lambda>q. (if IsGlobal m \<and> isExportedProvider m q then [] else s, q)) (ProvidersCtors m)
     @ concat (map (\<lambda>k. placements k
          @ (if IsGlobal (Module k) then [] else map (\<lambda>e. (s, e)) (ExportsCtors (Module k))))
        kids)"

definition placed_at :: "scope \<Rightarrow> (scope \<times> ProviderConstructor) list \<Rightarrow> ProviderConstructor list" where
  "placed_at a ps = map snd (filter (\<lambda>x. fst x = a) ps)"

text \<open>The modules of a built tree.\<close>

fun instances :: "('g, 'h) module \<Rightarrow> ('g, 'h) module list" where
  "instances (mk_module m s p kids) = mk_module m s p kids # concat (map instances kids)"

definition kid_placements ::
  "scope \<Rightarrow> ('g, 'h) module list \<Rightarrow> (scope \<times> ProviderConstructor) list" where
  "kid_placements s kids =
     concat (map (\<lambda>k. placements k
          @ (if IsGlobal (Module k) then [] else map (\<lambda>e. (s, e)) (ExportsCtors (Module k))))
        kids)"

text \<open>
  A built tree is whole: every module holds one built module for each import it
  declares, in the order of the declaration, linked to it as its parent and living in a
  scope directly below its own.
\<close>

fun built :: "('g, 'h) module \<Rightarrow> bool" where
  "built (mk_module m s p kids) =
     (map Module kids = Imports m
      \<and> list_all (\<lambda>k. parent k = Some s \<and> scope k \<noteq> [] \<and> tl (scope k) = s \<and> built k) kids)"

text \<open>The modules a declaration stands for, and the types their constructors provide.\<close>

fun modules :: "('g, 'h) Module \<Rightarrow> ('g, 'h) Module list" where
  "modules (ModuleConfig t ty g imps ex exc pr prc cs csc) =
     ModuleConfig t ty g imps ex exc pr prc cs csc # concat (map modules imps)"

definition ctorKeys :: "('g, 'h) Module \<Rightarrow> key list" where
  "ctorKeys m = concat (map (\<lambda>x. map pProvides (ProvidersCtors x @ ExportsCtors x)) (modules m))"

text \<open>
  \<open>sole_provider app M p\<close>: in the built tree \<open>app\<close>, the constructor \<open>p\<close> of module \<open>M\<close>
  is the only provider constructor for its type, no module that is not global exports a
  constructor for that type, and the type is not the server's.
\<close>

definition sole_provider ::
  "('g, 'h) module \<Rightarrow> ('g, 'h) module \<Rightarrow> ProviderConstructor \<Rightarrow> bool" where
  "sole_provider app M p =
     (pProvides p \<noteq> HttpServerKey
      \<and> (\<forall>x\<in>set (instances app).
            (\<forall>q\<in>set (ProvidersCtors (Module x)). pProvides q = pProvides p \<longrightarrow> x = M \<and> q = p)
            \<and> (\<not> IsGlobal (Module x) \<longrightarrow>
                 (\<forall>q\<in>set (ExportsCtors (Module x)). pProvides q \<noteq> pProvides p))))"

text \<open>A declaration without the providers and exports given as values, and a built
  tree without them.\<close>

fun ctorsOnly :: "('g, 'h) Module \<Rightarrow> ('g, 'h) Module" where
  "ctorsOnly (ModuleConfig t ty g imps ex exc pr prc cs csc) =
     ModuleConfig t ty g (map ctorsOnly imps) [] exc [] prc cs csc"

fun stripValues :: "('g, 'h) module \<Rightarrow> ('g, 'h) module" where
  "stripValues (mk_module m s p kids) = mk_module (ctorsOnly m) s p (map stripValues kids)"

text \<open>The descriptions \<open>newModule\<close> puts in front of the error of a failing stage.\<close>

definition buildStage :: "string \<Rightarrow> bool" where
  "buildStage d =
     (d = ''error registering providers: '' \<or> d = ''error registering controllers: ''
      \<or> d = ''error registering exports: ''
      \<or> (prefix ''error building module ('' d \<and> suffix ''): '' d))"

section \<open>The order of the build\<close>

text \<open>The calls of the controller stage: registrations in a group and invocations.\<close>

fun controller_call :: "call \<Rightarrow> bool" where
  "controller_call (CallProvideGroup s g t) = True"
| "controller_call (CallInvoke s) = True"
| "controller_call (CallProvide s c x) = False"
| "controller_call (CallScope s n c) = False"



text \<open>\<open>ctl_ext st st'\<close>: from \<open>st\<close> to \<open>st'\<close> the container accepted only calls of the
  controller stage.\<close>

definition ctl_ext :: "('g, 'h) state \<Rightarrow> ('g, 'h) state \<Rightarrow> bool" where
  "ctl_ext st st' = (\<exists>cs. calls st' = calls st @ cs \<and> list_all controller_call cs)"

section \<open>The guards of the controllers of a module\<close>

text \<open>
  A slice is well formed in a store when its length is within its capacity and, unless
  the capacity is zero, its backing array is in the store and has that capacity.
\<close>

definition wf_slice :: "'g option list list \<Rightarrow> slice \<Rightarrow> bool" where
  "wf_slice h s =
     (len s \<le> cap s \<and> (0 < cap s \<longrightarrow> array s < length h \<and> length (h ! array s) = cap s))"

text \<open>The guard constructors in the group \<open>guards\<close> of a scope, in registration
  order; the guard constructors a controller declares, instances first; and the guard a
  constructor stands for once it is called and passed through \<open>newGuard\<close>.\<close>

definition guardGroup :: "('g, 'h) state \<Rightarrow> scope \<Rightarrow> 'g GuardConstructor list" where
  "guardGroup st s =
     concat (map (\<lambda>x. case x of GuardMember g \<Rightarrow> [g] | ControllerMember c \<Rightarrow> [])
       (groups st s groupGuards))"

definition declaredGuards :: "('g, 'h) ControllerConfig \<Rightarrow> 'g GuardConstructor list" where
  "declaredGuards cfg = map guardInstance (Guards cfg) @ GuardsCtors cfg"

definition resolved :: "('g, 'h) env \<Rightarrow> 'g GuardConstructor \<Rightarrow> 'g" where
  "resolved E g = projr (newGuard E (projr (gResult g)))"

text \<open>Building a route may add guards to the group of the controller's module scope
  and allocate arrays; it takes no guard out of the group and writes into no array
  that exists.\<close>

definition routes_extend :: "('g, 'h) env \<Rightarrow> bool" where
  "routes_extend E =
     (\<forall>cfg c st r st'. newRoute E cfg c st = Inr (r, st') \<longrightarrow>
        prefix (guardGroup st (module_scope c)) (guardGroup st' (module_scope c))
        \<and> prefix (arrays st) (arrays st'))"

section \<open>Properties of the dispatch handler\<close>

lemma runGuards_result:
  "fst (runGuards c gs w) = (True, None) \<or> (\<exists>e. fst (runGuards c gs w) = (False, e))"
  by (induction gs arbitrary: w) (auto split: prod.splits)

lemma runGuards_append:
  "runGuards c (xs @ ys) w =
     (case runGuards c xs w of
        ((allowed, err), w') \<Rightarrow>
          if \<not> allowed \<or> err \<noteq> None then ((False, err), w') else runGuards c ys w')"
  by (induction xs arbitrary: w) (auto split: prod.splits)

lemma runGuards_short_circuit:
  assumes "runGuards c pre w = ((True, None), w1)"
    and "g c w1 = ((allowed, err), w2)" and "\<not> allowed \<or> err \<noteq> None"
  shows "runGuards c (pre @ g # post) w = ((False, err), w2)"
  using assms by (simp add: runGuards_append)

lemmas build_defs = New_def registerProviders_def registerControllers_def
  registerExportedProviders_def newChildScope_def assignParent_def Scope_def
  isExportedProvider_def GetToken_def newController_def registerGuards_def
  registerRoutes_def Provide_def dig_New_def HttpServerCtor_def ProvideGroup_def
  memberValid_def memberType_def guardInstance_def Invoke_guardGroupInput_def
  Invoke_controllerGroupInput_def construct_def resolvable_def Invoke_HttpServer_def
  HttpServerKey_def newRoute_spec_def append_slice_def gcGrow_def nilSlice_def
  getHandler_def getGuards_def readSlice_def cells_def getPath_def cmp_Or_def
  defaultPath_def pathSeparator_def TrimPrefix_def TrimSpace_def whiteSpace_def
  groupGuards_def groupControllers_def Let_def gcEnv_def

text \<open>
  Claim C3.  The chain a route's handler evaluates should be the controller's guards
  followed by the route's own guards.  \<open>getGuards\<close> appends the route's guards to
  \<open>c.guards\<close> itself: after three controller guards the backing array of \<open>c.guards\<close>
  has a fourth, unused cell, the chain of the first route is written into it, and the
  chain of the second route is written over it.  A request to \<open>GET /a/x\<close> is checked by
  \<open>A\<close>, \<open>B\<close>, \<open>C\<close> and then by \<open>G2\<close>, the guard of the other route; \<open>G1\<close> is never
  called.
\<close>

theorem getGuards_overwrites_earlier_chain:
  "served twoRoutes =
     Inr [(''GET /a/x'', Served, [''A'', ''B'', ''C'', ''G2'', ''x'']),
          (''GET /a/y'', Served, [''A'', ''B'', ''C'', ''G2'', ''y''])]"
  by (simp add: served_def twoRoutes_def build_defs ServeHTTP_def handlerFunc_def
      namedGuard_def namedHandler_def)

text \<open>
  Claim C4.  A guard that returns an error should make the dispatch handler answer
  Internal Server Error.  \<open>runGuards\<close> returns \<open>false\<close> together with the error, and
  the handler tests \<open>!allowed\<close> first: with a single guard returning \<open>(true, err)\<close> the
  answer is Forbidden, and no chain of guards ever reaches the Internal Server Error
  branch.
\<close>

theorem getHandler_error_answers_Forbidden:
  "handlerFunc [\<lambda>c w. ((True, Some (ErrorString ''boom'')), w)] h c w
     = (HttpError ''Forbidden'' StatusForbidden, w)
   \<and> fst (handlerFunc gs h' c' w')
       \<noteq> HttpError ''Internal Server Error'' StatusInternalServerError"
proof
  show "handlerFunc [\<lambda>c w. ((True, Some (ErrorString ''boom'')), w)] h c w
     = (HttpError ''Forbidden'' StatusForbidden, w)"
    by (simp add: handlerFunc_def)
  obtain a e w1 where r: "runGuards c' gs w' = ((a, e), w1)"
    by (metis surj_pair)
  show "fst (handlerFunc gs h' c' w')
      \<noteq> HttpError ''Internal Server Error'' StatusInternalServerError"
  proof (cases a)
    case False
    with r show ?thesis by (simp add: handlerFunc_def StatusForbidden_def)
  next
    case True
    with r runGuards_result [of c' gs w'] have "e = None" by auto
    with r True show ?thesis by (simp add: handlerFunc_def)
  qed
qed

text \<open>
  Claim C5.  At any position of the chain (after \<open>pre\<close>, before \<open>post\<close>), a guard that
  returns \<open>(true, err)\<close> and a guard that returns \<open>(false, nil)\<close>, with the same effect
  \<open>k\<close> on the world, give the same reply and the same world: the reply is Forbidden, and
  the route's handler has no part in the outcome (any other handler gives the same).
\<close>

theorem guard_error_same_as_denial:
  assumes g: "\<forall>w. g c w = ((True, Some e), k w)"
    and g': "\<forall>w. g' c w = ((False, None), k w)"
  shows "handlerFunc (pre @ g # post) h c w = handlerFunc (pre @ g' # post) h c w
       \<and> fst (handlerFunc (pre @ g # post) h c w) = HttpError ''Forbidden'' StatusForbidden
       \<and> handlerFunc (pre @ g # post) h c w = handlerFunc (pre @ g # post) h' c w"
proof -
  obtain a x w1 where r: "runGuards c pre w = ((a, x), w1)"
    by (metis surj_pair)
  have d: "\<not> a \<or> (a \<and> x = None)"
    using r runGuards_result [of c pre w] by auto
  have 1: "runGuards c (pre @ g # post) w =
      (if \<not> a \<or> x \<noteq> None then ((False, x), w1) else ((False, Some e), k w1))"
    using r g by (simp add: runGuards_append)
  have 2: "runGuards c (pre @ g' # post) w =
      (if \<not> a \<or> x \<noteq> None then ((False, x), w1) else ((False, None), k w1))"
    using r g' by (simp add: runGuards_append)
  show ?thesis using 1 2 d by (auto simp: handlerFunc_def)
qed

theorem guard_error_same_as_denial_witness:
  "handlerFunc ([\<lambda>c w. ((True, None), w @ [''A''])]
       @ (\<lambda>c w. ((True, Some (ErrorString ''boom'')), w @ [''B'']))
       # [\<lambda>c w. ((True, None), w @ [''C''])]) (\<lambda>w. w @ [''handler'']) () []
     = (HttpError ''Forbidden'' StatusForbidden, [''A'', ''B''])
   \<and> handlerFunc ([\<lambda>c w. ((True, None), w @ [''A''])]
       @ (\<lambda>c w. ((False, None), w @ [''B'']))
       # [\<lambda>c w. ((True, None), w @ [''C''])]) (\<lambda>w. w @ [''handler'']) () []
     = (HttpError ''Forbidden'' StatusForbidden, [''A'', ''B''])"
  using guard_error_same_as_denial
    [of "\<lambda>c w. ((True, Some (ErrorString ''boom'')), w @ [''B''])" "()"
        "ErrorString ''boom''" "\<lambda>w. w @ [''B'']"
        "\<lambda>c w. ((False, None), w @ [''B''])"
        "[\<lambda>c w. ((True, None), w @ [''A''])]"
        "[\<lambda>c w. ((True, None), w @ [''C''])]"
        "\<lambda>w. w @ [''handler'']" "[]" "\<lambda>w. w @ [''handler'']"]
  by (simp add: handlerFunc_def)

section \<open>The route path\<close>

text \<open>
  Claim C6.  With an empty controller pattern the root is \<open>defaultPath\<close>, and joining it
  to the trimmed route pattern with \<open>pathSeparator\<close> doubles the separator: the
  registered pattern is \<open>POST //signin\<close>, and for two empty patterns the joined path is
  \<open>//\<close>.  With the controller pattern \<open>/auth\<close> the pattern is \<open>POST /auth/signup\<close>.
\<close>

theorem getPath_examples:
  "getPath (c\<lparr>Controller := (Controller c)\<lparr>Pattern := ''''\<rparr>\<rparr>)
      (r\<lparr>Method := ''POST'', RoutePattern := ''/signin''\<rparr>) = ''POST //signin''
   \<and> getPath (c\<lparr>Controller := (Controller c)\<lparr>Pattern := ''/auth''\<rparr>\<rparr>)
      (r\<lparr>Method := ''POST'', RoutePattern := ''/signup''\<rparr>) = ''POST /auth/signup''
   \<and> getPath (c\<lparr>Controller := (Controller c)\<lparr>Pattern := ''''\<rparr>\<rparr>)
      (r\<lparr>Method := ''POST'', RoutePattern := ''''\<rparr>) = ''POST //''"
  by (simp add: getPath_def cmp_Or_def defaultPath_def pathSeparator_def TrimPrefix_def
      TrimSpace_def whiteSpace_def)


section \<open>The build registers providers where the module tree says\<close>

lemma assignParent_Some:
  "\<exists>x1 y1. assignParent x (Some y) = Inr (x1, Some y1) \<and> Module x1 = Module x
     \<and> scope x1 = scope x \<and> parent x1 = Some (scope y) \<and> mimports x1 = mimports x
     \<and> y1 = mk_module (Module y) (scope y) (parent y) (mimports y @ [x1])"
  by (simp add: assignParent_def Let_def)


lemma Provide_providers:
  "Provide s ctor ex st = Inr st' \<Longrightarrow>
     providers st' = (providers st)((if ex then [] else s) := providers st (if ex then [] else s) @ [ctor])"
  by (auto simp: Provide_def Let_def split: if_splits)

lemma ProvideGroup_providers: "ProvideGroup s g x st = Inr st' \<Longrightarrow> providers st' = providers st"
  by (auto simp: ProvideGroup_def split: if_splits)

lemma provideGuards_providers: "provideGuards E s gs st = Inr st' \<Longrightarrow> providers st' = providers st"
  by (induction gs arbitrary: st) (auto split: sum.splits dest: ProvideGroup_providers)

lemma provideGuardsCtors_providers:
  "provideGuardsCtors s gs st = Inr st' \<Longrightarrow> providers st' = providers st"
  by (induction gs arbitrary: st) (auto split: sum.splits dest: ProvideGroup_providers)

lemma provideControllers_providers:
  "provideControllers s cs st = Inr st' \<Longrightarrow> providers st' = providers st"
  by (induction cs arbitrary: st) (auto split: sum.splits dest: ProvideGroup_providers)

lemma Invoke_guardGroupInput_providers:
  "Invoke_guardGroupInput s st = Inr (gs, st') \<Longrightarrow> providers st' = providers st"
  by (auto simp: Invoke_guardGroupInput_def split: sum.splits)

lemma Invoke_controllerGroupInput_providers:
  "Invoke_controllerGroupInput s st = Inr (gs, st') \<Longrightarrow> providers st' = providers st"
  by (auto simp: Invoke_controllerGroupInput_def split: sum.splits)

lemma Invoke_HttpServer_providers:
  "Invoke_HttpServer s st = Inr st' \<Longrightarrow> providers st' = providers st"
  by (auto simp: Invoke_HttpServer_def split: if_splits)

lemma appendGuards_providers:
  "appendGuards E c gs st = Inr (c', st') \<Longrightarrow> providers st' = providers st"
  by (induction gs arbitrary: c st) (auto split: sum.splits prod.splits)

lemma registerGuards_providers:
  "registerGuards E c st = Inr (c', st') \<Longrightarrow> providers st' = providers st"
  by (auto simp: registerGuards_def split: sum.splits
      dest!: provideGuards_providers provideGuardsCtors_providers
        Invoke_guardGroupInput_providers appendGuards_providers)

lemma getHandler_providers: "getHandler E c r st = (f, st') \<Longrightarrow> providers st' = providers st"
  by (auto simp: getHandler_def split: prod.splits)

lemma registerRoutes_loop_providers:
  "routes_keep_providers E \<Longrightarrow> registerRoutes_loop E c rs st = Inr (c', st')
     \<Longrightarrow> providers st' = providers st"
proof (induction rs arbitrary: c st)
  case Nil
  then show ?case by simp
next
  case (Cons rCfg rest)
  from Cons.prems(2) obtain r st1 f st2 where
    1: "newRoute E rCfg c st = Inr (r, st1)" and
    2: "getHandler E (c\<lparr>routes := routes c @ [r]\<rparr>) r st1 = (f, st2)" and
    3: "registerRoutes_loop E (c\<lparr>routes := routes c @ [r]\<rparr>) rest
          (st2\<lparr>mux := mux st2 @ [(getPath (c\<lparr>routes := routes c @ [r]\<rparr>) r, f)]\<rparr>) = Inr (c', st')"
    by (auto simp: Let_def split: sum.splits prod.splits)
  have "providers st1 = providers st"
    using Cons.prems(1) 1 by (auto simp: routes_keep_providers_def)
  moreover have "providers st2 = providers st1" using 2 by (rule getHandler_providers)
  moreover have "providers st' = providers st2"
    using Cons.IH [OF Cons.prems(1) 3] by simp
  ultimately show ?case by simp
qed

lemma registerRoutes_providers:
  "routes_keep_providers E \<Longrightarrow> registerRoutes E c st = Inr (c', st')
     \<Longrightarrow> providers st' = providers st"
  by (auto simp: registerRoutes_def split: sum.splits
      dest!: Invoke_HttpServer_providers registerRoutes_loop_providers)

lemma newController_providers:
  "routes_keep_providers E \<Longrightarrow> newController E c m st = Inr (c', st')
     \<Longrightarrow> providers st' = providers st"
  by (auto simp: newController_def Let_def split: sum.splits
      dest!: registerGuards_providers registerRoutes_providers)

lemma newControllers_providers:
  "routes_keep_providers E \<Longrightarrow> newControllers E m cs st = Inr (cs', st')
     \<Longrightarrow> providers st' = providers st"
  by (induction cs arbitrary: st cs') (auto split: sum.splits dest!: newController_providers)

lemma registerControllers_providers:
  "routes_keep_providers E \<Longrightarrow> registerControllers E m s st = Inr (cs, st')
     \<Longrightarrow> providers st' = providers st"
  by (auto simp: registerControllers_def split: sum.splits
      dest!: provideControllers_providers Invoke_controllerGroupInput_providers
        newControllers_providers)


lemma placed_at_simps [simp]:
  "placed_at a [] = []"
  "placed_at a (x # xs) = (if fst x = a then snd x # placed_at a xs else placed_at a xs)"
  "placed_at a (xs @ ys) = placed_at a xs @ placed_at a ys"
  by (simp_all add: placed_at_def)

lemma Scope_providers: "Scope s n st = (c, st') \<Longrightarrow> providers st' = providers st"
  by (auto simp: Scope_def Let_def)

lemma registerProviders_loop_placed:
  "registerProviders_loop m s ps st = Inr st' \<Longrightarrow>
     providers st' a = providers st a
       @ placed_at a (map (\<lambda>q. (if IsGlobal m \<and> isExportedProvider m q then [] else s, q)) ps)"
proof (induction ps arbitrary: st)
  case Nil
  then show ?case by simp
next
  case (Cons q rest)
  from Cons.prems obtain st1 where
    1: "Provide s q (IsGlobal m \<and> isExportedProvider m q) st = Inr st1" and
    2: "registerProviders_loop m s rest st1 = Inr st'"
    by (auto simp: Let_def split: sum.splits)
  show ?case
    using Cons.IH [OF 2] Provide_providers [OF 1] by auto
qed

lemma registerExportedProviders_loop_placed:
  "registerExportedProviders_loop ps es st = Inr st' \<Longrightarrow>
     providers st' a = providers st a @ placed_at a (map (\<lambda>e. (ps, e)) es)"
proof (induction es arbitrary: st)
  case Nil
  then show ?case by simp
next
  case (Cons q rest)
  from Cons.prems obtain st1 where
    1: "Provide ps q False st = Inr st1" and
    2: "registerExportedProviders_loop ps rest st1 = Inr st'"
    by (auto split: sum.splits)
  show ?case
    using Cons.IH [OF 2] Provide_providers [OF 1] by auto
qed

lemma registerExportedProviders_placed:
  "registerExportedProviders k st = Inr st' \<Longrightarrow> parent k = Some ps \<Longrightarrow>
     providers st' a = providers st a
       @ placed_at a (if IsGlobal (Module k) then [] else map (\<lambda>e. (ps, e)) (ExportsCtors (Module k)))"
  by (auto simp: registerExportedProviders_def split: if_splits
      dest: registerExportedProviders_loop_placed)

lemma kid_placements_simps [simp]:
  "kid_placements s [] = []"
  "kid_placements s (xs @ ys) = kid_placements s xs @ kid_placements s ys"
  "kid_placements s [k] = placements k
          @ (if IsGlobal (Module k) then [] else map (\<lambda>e. (s, e)) (ExportsCtors (Module k)))"
  by (simp_all add: kid_placements_def)


lemma placements_eq:
  "placements mi = map (\<lambda>q. (if IsGlobal (Module mi) \<and> isExportedProvider (Module mi) q then [] else scope mi, q))
       (ProvidersCtors (Module mi)) @ kid_placements (scope mi) (mimports mi)"
  by (cases mi) (simp add: kid_placements_def)

lemma newModule_placements:
  assumes E: "routes_keep_providers E"
  shows "\<forall>mi st'. newModule E m s st = Inr (mi, st') \<longrightarrow>
           Module mi = m \<and> scope mi = s \<and> parent mi = None \<and> built mi
           \<and> (\<forall>a. providers st' a = providers st a @ placed_at a (placements mi))"
    and "\<forall>modl' st'. newModule_imports E modl ms st = Inr (modl', st') \<longrightarrow>
           (\<exists>kids. modl' = mk_module (Module modl) (scope modl) (parent modl) (mimports modl @ kids)
              \<and> map Module kids = ms
              \<and> (\<forall>k\<in>set kids. parent k = Some (scope modl) \<and> scope k \<noteq> [] \<and> tl (scope k) = scope modl \<and> built k)
              \<and> (\<forall>a. providers st' a = providers st a @ placed_at a (kid_placements (scope modl) kids)))"
  using E
proof (induction E m s st and E modl ms st rule: newModule_newModule_imports.induct)
  case (1 E m s st)
  show ?case
  proof (intro allI impI)
    fix mi st'
    assume ok: "newModule E m s st = Inr (mi, st')"
    from ok obtain st1 ctrls st2 where
      p: "registerProviders m s st = Inr st1" and
      c: "registerControllers E m s st1 = Inr (ctrls, st2)" and
      i: "newModule_imports E (mk_module m s None []) (Imports m) st2 = Inr (mi, st')"
      by (auto simp: Let_def split: sum.splits)
    from "1.IH" [OF refl p c refl "1.prems"] i obtain kids where
      mi: "mi = mk_module m s None kids" and
      bk: "map Module kids = Imports m"
        "\<forall>k\<in>set kids. parent k = Some s \<and> scope k \<noteq> [] \<and> tl (scope k) = s \<and> built k" and
      pl: "\<And>a. providers st' a = providers st2 a @ placed_at a (kid_placements s kids)"
      by auto
    have "providers st2 = providers st1"
      using registerControllers_providers [OF "1.prems" c] .
    moreover have "providers st1 a = providers st a
       @ placed_at a (map (\<lambda>q. (if IsGlobal m \<and> isExportedProvider m q then [] else s, q)) (ProvidersCtors m))" for a
      using p by (simp add: registerProviders_def registerProviders_loop_placed)
    ultimately show "Module mi = m \<and> scope mi = s \<and> parent mi = None \<and> built mi
           \<and> (\<forall>a. providers st' a = providers st a @ placed_at a (placements mi))"
      using mi pl bk by (simp add: kid_placements_def list_all_iff)
  qed
next
  case (2 E modl st)
  show ?case by auto
next
  case (3 E modl imported rest st)
  show ?case
  proof (intro allI impI)
    fix modl' st'
    assume ok: "newModule_imports E modl (imported # rest) st = Inr (modl', st')"
    obtain s st0 where sc: "newChildScope modl imported st = (s, st0)"
      by (metis surj_pair)
    from ok sc obtain importedMod st1 where
      n: "newModule E imported s st0 = Inr (importedMod, st1)"
      by (auto split: sum.splits)
    obtain importedMod1 modl1 where
      a: "assignParent importedMod (Some modl) = Inr (importedMod1, Some modl1)"
      using assignParent_Some [of importedMod modl] by blast
    from ok sc n a obtain st2 where
      x: "registerExportedProviders importedMod1 st1 = Inr st2" and
      r: "newModule_imports E modl1 rest st2 = Inr (modl', st')"
      by (auto split: sum.splits)
    have s: "s = subscopes st (scope modl) # scope modl" and st0: "providers st0 = providers st"
      using sc by (auto simp: newChildScope_def Scope_def Let_def)
    from "3.IH"(1) [OF sc [symmetric] "3.prems"] n have
      im: "Module importedMod = imported" "scope importedMod = s" "built importedMod" and
      pl1: "\<And>a. providers st1 a = providers st0 a @ placed_at a (placements importedMod)"
      by auto
    have im1: "importedMod1 = mk_module (Module importedMod) (scope importedMod) (Some (scope modl)) (mimports importedMod)"
      and m1: "modl1 = mk_module (Module modl) (scope modl) (parent modl) (mimports modl @ [importedMod1])"
      using a by (auto simp: assignParent_def Let_def)
    have pe: "placements importedMod1 = placements importedMod"
      using im1 by (cases importedMod) simp
    have pl2: "providers st2 a = providers st1 a
       @ placed_at a (if IsGlobal imported then [] else map (\<lambda>e. (scope modl, e)) (ExportsCtors imported))" for a
      using registerExportedProviders_placed [OF x, of "scope modl" a] im im1 by simp
    from "3.IH"(2) [OF sc [symmetric] n refl a refl x "3.prems"] r obtain kids where
      k1: "modl' = mk_module (Module modl1) (scope modl1) (parent modl1) (mimports modl1 @ kids)" and
      k2: "map Module kids = rest" and
      k3: "\<forall>k\<in>set kids. parent k = Some (scope modl1) \<and> scope k \<noteq> [] \<and> tl (scope k) = scope modl1 \<and> built k" and
      k4: "\<And>a. providers st' a = providers st2 a @ placed_at a (kid_placements (scope modl1) kids)"
      by auto
    show "\<exists>kids. modl' = mk_module (Module modl) (scope modl) (parent modl) (mimports modl @ kids)
              \<and> map Module kids = imported # rest
              \<and> (\<forall>k\<in>set kids. parent k = Some (scope modl) \<and> scope k \<noteq> [] \<and> tl (scope k) = scope modl \<and> built k)
              \<and> (\<forall>a. providers st' a = providers st a @ placed_at a (kid_placements (scope modl) kids))"
    proof (intro exI [of _ "importedMod1 # kids"] conjI allI)
      show "modl' = mk_module (Module modl) (scope modl) (parent modl) (mimports modl @ importedMod1 # kids)"
        using k1 m1 by simp
      show "map Module (importedMod1 # kids) = imported # rest"
        using k2 im im1 by simp
      have "built importedMod1"
        using im(3) im1 by (cases importedMod) simp
      then show "\<forall>k\<in>set (importedMod1 # kids). parent k = Some (scope modl) \<and> scope k \<noteq> [] \<and> tl (scope k) = scope modl \<and> built k"
        using k3 m1 im1 im s by simp
      fix a
      have mim1: "Module importedMod1 = imported" and sm1: "scope modl1 = scope modl"
        using im im1 m1 by simp_all
      have "kid_placements (scope modl) (importedMod1 # kids)
          = placements importedMod
            @ (if IsGlobal imported then [] else map (\<lambda>e. (scope modl, e)) (ExportsCtors imported))
            @ kid_placements (scope modl) kids"
        unfolding kid_placements_def by (simp add: pe mim1)
      then show "providers st' a = providers st a @ placed_at a (kid_placements (scope modl) (importedMod1 # kids))"
        using k4 [of a] pl2 [of a] pl1 [of a] st0 sm1 by simp
    qed
  qed
qed


section \<open>Visibility of providers after the build\<close>

lemma resolvable_iff:
  "resolvable st s k \<longleftrightarrow> (\<exists>a q. suffix a s \<and> q \<in> set (providers st a) \<and> pProvides q = k)"
  by (auto simp: resolvable_def list_ex_iff in_set_suffixes)

lemma in_placed_at [simp]: "q \<in> set (placed_at a ps) \<longleftrightarrow> (a, q) \<in> set ps"
  by (force simp: placed_at_def)

lemma self_instance [simp]: "mi \<in> set (instances mi)"
  by (cases mi) simp

lemma instances_eq: "instances mi = mi # concat (map instances (mimports mi))"
  by (cases mi) simp

lemma instances_trans:
  "y \<in> set (instances x) \<Longrightarrow> x \<in> set (instances mi) \<Longrightarrow> y \<in> set (instances mi)"
proof (induction mi)
  case (mk_module m s p kids)
  show ?case
  proof (cases "x = mk_module m s p kids")
    case True
    with mk_module.prems show ?thesis by simp
  next
    case False
    with mk_module.prems obtain k where k: "k \<in> set kids" "x \<in> set (instances k)"
      by auto
    with mk_module.IH [OF k(1) mk_module.prems(1) k(2)] show ?thesis by auto
  qed
qed

lemma kid_instance: "k \<in> set (mimports x) \<Longrightarrow> x \<in> set (instances mi) \<Longrightarrow> k \<in> set (instances mi)"
  by (rule instances_trans [of k x mi]) (auto simp: instances_eq [of x] intro!: bexI [of _ k])

lemma placements_own:
  "q \<in> set (ProvidersCtors (Module x)) \<Longrightarrow>
     (if IsGlobal (Module x) \<and> isExportedProvider (Module x) q then [] else scope x, q)
       \<in> set (placements x)"
  by (cases x) auto

lemma placements_export:
  "k \<in> set (mimports x) \<Longrightarrow> \<not> IsGlobal (Module k) \<Longrightarrow> e \<in> set (ExportsCtors (Module k))
     \<Longrightarrow> (scope x, e) \<in> set (placements x)"
  by (cases x) auto

lemma placements_sub:
  "x \<in> set (instances mi) \<Longrightarrow> set (placements x) \<subseteq> set (placements mi)"
proof (induction mi)
  case (mk_module m s p kids)
  show ?case
  proof (cases "x = mk_module m s p kids")
    case True
    then show ?thesis by simp
  next
    case False
    with mk_module.prems obtain k where k: "k \<in> set kids" "x \<in> set (instances k)"
      by auto
    from mk_module.IH [OF k] k(1) show ?thesis by auto
  qed
qed

lemma placement_origin:
  "(a, q) \<in> set (placements mi) \<Longrightarrow>
     (\<exists>x\<in>set (instances mi). q \<in> set (ProvidersCtors (Module x))
          \<and> a = (if IsGlobal (Module x) \<and> isExportedProvider (Module x) q then [] else scope x))
     \<or> (\<exists>x\<in>set (instances mi). \<exists>k\<in>set (mimports x). \<not> IsGlobal (Module k)
          \<and> q \<in> set (ExportsCtors (Module k)) \<and> a = scope x)"
proof (induction mi)
  case (mk_module m s p kids)
  let ?mi = "mk_module m s p kids"
  from mk_module.prems consider
      (own) "q \<in> set (ProvidersCtors m)" "a = (if IsGlobal m \<and> isExportedProvider m q then [] else s)"
    | (sub) k where "k \<in> set kids" "(a, q) \<in> set (placements k)"
    | (exp) k where "k \<in> set kids" "\<not> IsGlobal (Module k)" "q \<in> set (ExportsCtors (Module k))" "a = s"
    by (auto split: if_splits)
  then show ?case
  proof cases
    case own
    then show ?thesis by (intro disjI1 bexI [of _ ?mi]) auto
  next
    case (sub k)
    have in_k: "x \<in> set (instances ?mi)" if "x \<in> set (instances k)" for x
      using that sub(1) by auto
    from mk_module.IH [OF sub] show ?thesis
    proof
      assume "\<exists>x\<in>set (instances k). q \<in> set (ProvidersCtors (Module x))
          \<and> a = (if IsGlobal (Module x) \<and> isExportedProvider (Module x) q then [] else scope x)"
      then show ?thesis using in_k by blast
    next
      assume "\<exists>x\<in>set (instances k). \<exists>k\<in>set (mimports x). \<not> IsGlobal (Module k)
          \<and> q \<in> set (ExportsCtors (Module k)) \<and> a = scope x"
      then show ?thesis using in_k by blast
    qed
  next
    case (exp k)
    have "?mi \<in> set (instances ?mi)" by simp
    moreover have "k \<in> set (mimports ?mi)" "a = scope ?mi" using exp by simp_all
    ultimately show ?thesis using exp(2,3) by blast
  qed
qed

lemma New_placements:
  assumes "routes_keep_providers E" and "New E m = Inr (app, st)"
  shows "Module app = m" and "scope app = [0]" and "parent app = None" and "built app"
    and "providers st a = (if a = [] then [HttpServerCtor] else []) @ placed_at a (placements app)"
proof -
  from assms(2) obtain st0 where
    p: "Provide [] HttpServerCtor False dig_New = Inr (st0 :: ('a, 'b) state)" and
    n: "newModule E m [0] (snd (Scope [] (mToken m) st0)) = Inr (app, st)"
    by (auto simp: New_def Scope_def Let_def Provide_def dig_New_def split: sum.splits if_splits)
  have 0: "providers (snd (Scope [] (mToken m) st0)) a = (if a = [] then [HttpServerCtor] else [])"
    using p by (auto simp: Scope_def Let_def Provide_def dig_New_def split: if_splits)
  from newModule_placements(1) [OF assms(1), of m "[0]" "snd (Scope [] (mToken m) st0)"] n
  have "Module app = m \<and> scope app = [0] \<and> parent app = None \<and> built app
      \<and> (\<forall>a. providers st a = providers (snd (Scope [] (mToken m) st0)) a @ placed_at a (placements app))"
    by blast
  with 0 show "Module app = m" and "scope app = [0]" and "parent app = None" and "built app"
    and "providers st a = (if a = [] then [HttpServerCtor] else []) @ placed_at a (placements app)"
    by simp_all
qed

lemma placed_resolvable:
  assumes "routes_keep_providers E" and "New E m = Inr (app, st)"
    and "(a, q) \<in> set (placements app)" and "suffix a S"
  shows "resolvable st S (pProvides q)"
proof -
  have "q \<in> set (providers st a)"
    using New_placements(5) [OF assms(1,2), of a] assms(3) by simp
  with assms(4) show ?thesis by (auto simp: resolvable_iff)
qed

lemma kid_scope_below:
  "built x \<Longrightarrow> k \<in> set (mimports x) \<Longrightarrow> suffix (scope x) (scope k)"
  by (cases x; cases "scope k") (auto simp: list_all_iff suffix_Cons)

lemma built_instance: "built mi \<Longrightarrow> x \<in> set (instances mi) \<Longrightarrow> built x"
proof (induction mi)
  case (mk_module m s p kids)
  show ?case
  proof (cases "x = mk_module m s p kids")
    case True
    with mk_module.prems show ?thesis by simp
  next
    case False
    with mk_module.prems obtain k where k: "k \<in> set kids" "x \<in> set (instances k)"
      by auto
    moreover have "built k" using mk_module.prems(1) k(1) by (simp add: list_all_iff)
    ultimately show ?thesis using mk_module.IH by blast
  qed
qed


lemma gcEnv_keeps_providers_aux:
  "appendRouteGuards E r gs st = Inr (r', st') \<Longrightarrow> providers st' = providers st"
  by (induction gs arbitrary: r st) (auto split: sum.splits prod.splits)

lemma gcEnv_keeps_providers: "routes_keep_providers gcEnv"
  by (auto simp: routes_keep_providers_def gcEnv_def newRoute_spec_def split: sum.splits
      dest: gcEnv_keeps_providers_aux)


text \<open>
  Claim C1, as the code has it.  After a successful build, a constructor that a module
  \<open>M\<close> which is not global both provides and exports is resolvable from the scope of
  \<open>M\<close>; and for a module \<open>P\<close> that imports \<open>M\<close> it is resolvable from the scope of \<open>P\<close>,
  from the scope of every module \<open>P\<close> imports (the siblings of \<open>M\<close>, whatever they
  import), and from every scope below the scope of \<open>P\<close>.
\<close>

theorem export_resolvable_below_importer:
  assumes E: "routes_keep_providers E" and N: "New E root = Inr (app, st)"
    and M: "M \<in> set (instances app)" and ng: "\<not> IsGlobal (Module M)"
    and e: "e \<in> set (ProvidersCtors (Module M))" "e \<in> set (ExportsCtors (Module M))"
  shows "resolvable st (scope M) (pProvides e)
     \<and> (\<forall>P\<in>set (instances app). M \<in> set (mimports P) \<longrightarrow>
           resolvable st (scope P) (pProvides e)
           \<and> (\<forall>Q\<in>set (mimports P). resolvable st (scope Q) (pProvides e))
           \<and> (\<forall>S. suffix (scope P) S \<longrightarrow> resolvable st S (pProvides e)))"
proof
  have "(scope M, e) \<in> set (placements M)"
    using placements_own [OF e(1)] ng by simp
  then have "(scope M, e) \<in> set (placements app)"
    using placements_sub [OF M] by blast
  then show "resolvable st (scope M) (pProvides e)"
    by (rule placed_resolvable [OF E N]) simp
  show "\<forall>P\<in>set (instances app). M \<in> set (mimports P) \<longrightarrow>
           resolvable st (scope P) (pProvides e)
           \<and> (\<forall>Q\<in>set (mimports P). resolvable st (scope Q) (pProvides e))
           \<and> (\<forall>S. suffix (scope P) S \<longrightarrow> resolvable st S (pProvides e))"
  proof (intro ballI impI)
    fix P assume P: "P \<in> set (instances app)" and MP: "M \<in> set (mimports P)"
    have "(scope P, e) \<in> set (placements P)"
      using placements_export [OF MP ng e(2)] .
    then have pl: "(scope P, e) \<in> set (placements app)"
      using placements_sub [OF P] by blast
    have below: "resolvable st S (pProvides e)" if "suffix (scope P) S" for S
      using placed_resolvable [OF E N pl that] .
    have bP: "built P"
      using built_instance [OF New_placements(4) [OF E N] P] .
    show "resolvable st (scope P) (pProvides e)
           \<and> (\<forall>Q\<in>set (mimports P). resolvable st (scope Q) (pProvides e))
           \<and> (\<forall>S. suffix (scope P) S \<longrightarrow> resolvable st S (pProvides e))"
      using below kid_scope_below [OF bP] by auto
  qed
qed

lemma New_siblings_value:
  "New gcEnv siblings = Inr (projr (New gcEnv siblings))"
  by (simp add: siblings_def exportingModule_def plainModule_def serviceCtor_def build_defs)

theorem export_resolvable_below_importer_witness:
  "resolvable (snd (projr (New gcEnv siblings))) [0, 0] ''*a.Service''
   \<and> resolvable (snd (projr (New gcEnv siblings))) [0] ''*a.Service''
   \<and> resolvable (snd (projr (New gcEnv siblings))) [1, 0] ''*a.Service''"
proof -
  let ?app = "fst (projr (New gcEnv siblings))" and ?st = "snd (projr (New gcEnv siblings))"
  let ?M = "mk_module exportingModule [0, 0] (Some [0]) []"
  have N: "New gcEnv siblings = Inr (?app, ?st)"
    using New_siblings_value by simp
  have app: "?app = mk_module siblings [0] None
      [?M, mk_module plainModule [1, 0] (Some [0]) []]"
    by (simp add: siblings_def exportingModule_def plainModule_def serviceCtor_def build_defs)
  have M: "?M \<in> set (instances ?app)" by (simp add: app)
  have ng: "\<not> IsGlobal (Module ?M)" by (simp add: exportingModule_def)
  have e: "serviceCtor ''a.Service'' \<in> set (ProvidersCtors (Module ?M))"
    "serviceCtor ''a.Service'' \<in> set (ExportsCtors (Module ?M))"
    by (simp_all add: exportingModule_def)
  from export_resolvable_below_importer [OF gcEnv_keeps_providers N M ng e]
  show ?thesis by (simp add: app serviceCtor_def)
qed

text \<open>
  Claim C1 as stated fails: in \<open>siblings\<close> the second import imports nothing, and the
  service the first import exports is resolvable from its scope.
\<close>

theorem sibling_resolves_export:
  "\<not> isl (New gcEnv siblings)
     \<and> map Module (mimports (fst (projr (New gcEnv siblings)))) = [exportingModule, plainModule]
     \<and> map scope (mimports (fst (projr (New gcEnv siblings)))) = [[0, 0], [1, 0]]
     \<and> Imports plainModule = []
     \<and> resolvable (snd (projr (New gcEnv siblings))) [1, 0] (pProvides (serviceCtor ''a.Service''))"
  by (simp add: siblings_def exportingModule_def plainModule_def serviceCtor_def build_defs)


text \<open>
  Claim C2.  After a successful build, a provider constructor of a global module \<open>M\<close>
  whose token is the token of one of the export constructors of \<open>M\<close> is resolvable
  from every scope.  One that is not exported is resolvable from the scope of \<open>M\<close> and
  the scopes below it, and, when nothing else in the tree provides its type, from no
  other scope.
\<close>

theorem global_export_resolvable_everywhere:
  assumes E: "routes_keep_providers E" and N: "New E root = Inr (app, st)"
    and M: "M \<in> set (instances app)" and g: "IsGlobal (Module M)"
    and p: "p \<in> set (ProvidersCtors (Module M))"
  shows "(isExportedProvider (Module M) p \<longrightarrow> (\<forall>S. resolvable st S (pProvides p)))
     \<and> (\<not> isExportedProvider (Module M) p \<longrightarrow>
           (\<forall>S. suffix (scope M) S \<longrightarrow> resolvable st S (pProvides p)))
     \<and> (\<not> isExportedProvider (Module M) p \<and> sole_provider app M p \<longrightarrow>
           (\<forall>S. resolvable st S (pProvides p) \<longrightarrow> suffix (scope M) S))"
proof (intro conjI impI allI)
  fix S
  assume x: "isExportedProvider (Module M) p"
  have "([], p) \<in> set (placements M)"
    using placements_own [OF p] g x by simp
  then have "([], p) \<in> set (placements app)"
    using placements_sub [OF M] by blast
  then show "resolvable st S (pProvides p)"
    by (rule placed_resolvable [OF E N]) simp
next
  fix S
  assume x: "\<not> isExportedProvider (Module M) p" and S: "suffix (scope M) S"
  have "(scope M, p) \<in> set (placements M)"
    using placements_own [OF p] x by simp
  then have "(scope M, p) \<in> set (placements app)"
    using placements_sub [OF M] by blast
  then show "resolvable st S (pProvides p)"
    by (rule placed_resolvable [OF E N]) (rule S)
next
  fix S
  assume x: "\<not> isExportedProvider (Module M) p \<and> sole_provider app M p"
    and r: "resolvable st S (pProvides p)"
  from x have sole: "sole_provider app M p" and nx: "\<not> isExportedProvider (Module M) p"
    by simp_all
  from r obtain a q where a: "suffix a S" and q: "q \<in> set (providers st a)"
    and k: "pProvides q = pProvides p"
    by (auto simp: resolvable_iff)
  have "q \<noteq> HttpServerCtor"
    using sole k by (auto simp: sole_provider_def HttpServerCtor_def)
  with q have "(a, q) \<in> set (placements app)"
    using New_placements(5) [OF E N, of a] by (auto split: if_splits)
  from placement_origin [OF this] show "suffix (scope M) S"
  proof
    assume "\<exists>x\<in>set (instances app). q \<in> set (ProvidersCtors (Module x))
          \<and> a = (if IsGlobal (Module x) \<and> isExportedProvider (Module x) q then [] else scope x)"
    then obtain x where x: "x \<in> set (instances app)" "q \<in> set (ProvidersCtors (Module x))"
      "a = (if IsGlobal (Module x) \<and> isExportedProvider (Module x) q then [] else scope x)"
      by blast
    from sole x(1,2) k have "x = M \<and> q = p"
      by (auto simp: sole_provider_def)
    with x(3) nx a show ?thesis by simp
  next
    assume "\<exists>x\<in>set (instances app). \<exists>k\<in>set (mimports x). \<not> IsGlobal (Module k)
          \<and> q \<in> set (ExportsCtors (Module k)) \<and> a = scope x"
    then obtain x c where x: "x \<in> set (instances app)" "c \<in> set (mimports x)"
      "\<not> IsGlobal (Module c)" "q \<in> set (ExportsCtors (Module c))"
      by blast
    have "c \<in> set (instances app)" using kid_instance [OF x(2,1)] .
    with sole x(3,4) k show ?thesis
      by (auto simp: sole_provider_def)
  qed
qed

lemma New_globalApp_value:
  "New gcEnv globalApp = Inr (projr (New gcEnv globalApp))"
  by (simp add: globalApp_def globalModule_def plainModule_def serviceCtor_def build_defs)

theorem global_export_resolvable_everywhere_witness:
  "resolvable (snd (projr (New gcEnv globalApp))) [1, 0] ''*g.Config''
   \<and> resolvable (snd (projr (New gcEnv globalApp))) [0] ''*g.Config''
   \<and> resolvable (snd (projr (New gcEnv globalApp))) [0, 0] ''*g.Secret''
   \<and> \<not> resolvable (snd (projr (New gcEnv globalApp))) [1, 0] ''*g.Secret''
   \<and> \<not> resolvable (snd (projr (New gcEnv globalApp))) [0] ''*g.Secret''"
proof -
  let ?app = "fst (projr (New gcEnv globalApp))" and ?st = "snd (projr (New gcEnv globalApp))"
  let ?M = "mk_module globalModule [0, 0] (Some [0]) []"
  have N: "New gcEnv globalApp = Inr (?app, ?st)"
    using New_globalApp_value by simp
  have app: "?app = mk_module globalApp [0] None
      [?M, mk_module plainModule [1, 0] (Some [0]) []]"
    by (simp add: globalApp_def globalModule_def plainModule_def serviceCtor_def build_defs)
  have M: "?M \<in> set (instances ?app)" by (simp add: app)
  have g: "IsGlobal (Module ?M)" by (simp add: globalModule_def)
  have c: "serviceCtor ''g.Config'' \<in> set (ProvidersCtors (Module ?M))"
    and s: "serviceCtor ''g.Secret'' \<in> set (ProvidersCtors (Module ?M))"
    by (simp_all add: globalModule_def)
  have xc: "isExportedProvider (Module ?M) (serviceCtor ''g.Config'')"
    and xs: "\<not> isExportedProvider (Module ?M) (serviceCtor ''g.Secret'')"
    by (simp_all add: globalModule_def isExportedProvider_def GetToken_def serviceCtor_def)
  have sole: "sole_provider ?app ?M (serviceCtor ''g.Secret'')"
    unfolding app
    by (auto simp: sole_provider_def globalApp_def globalModule_def plainModule_def
        serviceCtor_def HttpServerKey_def)
  from global_export_resolvable_everywhere [OF gcEnv_keeps_providers N M g c] xc
  have 1: "\<forall>S. resolvable ?st S ''*g.Config''"
    by (simp add: serviceCtor_def)
  from global_export_resolvable_everywhere [OF gcEnv_keeps_providers N M g s] xs sole
  have 2: "\<forall>S. suffix [0, 0] S \<longrightarrow> resolvable ?st S ''*g.Secret''"
    and 3: "\<forall>S. resolvable ?st S ''*g.Secret'' \<longrightarrow> suffix [0, 0] S"
    by (simp_all add: serviceCtor_def)
  from 1 have "resolvable ?st [1, 0] ''*g.Config''" "resolvable ?st [0] ''*g.Config''"
    by blast+
  moreover from 2 have "resolvable ?st [0, 0] ''*g.Secret''" by simp
  moreover from 3 have "\<not> resolvable ?st [1, 0] ''*g.Secret''" "\<not> resolvable ?st [0] ''*g.Secret''"
    by (auto simp: suffix_def)
  ultimately show ?thesis by blast
qed


section \<open>Providers and exports given as values\<close>

lemma ctorsOnly_fields [simp]:
  "mToken (ctorsOnly m) = mToken m" "mType (ctorsOnly m) = mType m"
  "IsGlobal (ctorsOnly m) = IsGlobal m" "Imports (ctorsOnly m) = map ctorsOnly (Imports m)"
  "ExportsCtors (ctorsOnly m) = ExportsCtors m" "ProvidersCtors (ctorsOnly m) = ProvidersCtors m"
  "ControllersCtors (ctorsOnly m) = ControllersCtors m"
  "Exports (ctorsOnly m) = []" "Providers (ctorsOnly m) = []"
  by (cases m; simp)+

lemma stripValues_fields [simp]:
  "Module (stripValues x) = ctorsOnly (Module x)" "scope (stripValues x) = scope x"
  "parent (stripValues x) = parent x" "mimports (stripValues x) = map stripValues (mimports x)"
  by (cases x; simp)+

lemma isExportedProvider_ctorsOnly [simp]:
  "isExportedProvider (ctorsOnly m) p = isExportedProvider m p"
  by (simp add: isExportedProvider_def)

lemma registerProviders_loop_ctorsOnly:
  "registerProviders_loop (ctorsOnly m) s ps st = registerProviders_loop m s ps st"
  by (induction ps arbitrary: st) (auto split: sum.splits)

lemma registerProviders_ctorsOnly [simp]:
  "registerProviders (ctorsOnly m) s st = registerProviders m s st"
  by (simp add: registerProviders_def registerProviders_loop_ctorsOnly)

lemma registerControllers_ctorsOnly [simp]:
  "registerControllers E (ctorsOnly m) s st = registerControllers E m s st"
  by (simp add: registerControllers_def)

lemma registerExportedProviders_stripValues [simp]:
  "registerExportedProviders (stripValues x) st = registerExportedProviders x st"
  by (simp add: registerExportedProviders_def split: option.splits)

lemma newChildScope_stripValues [simp]:
  "newChildScope (stripValues x) (ctorsOnly m) st = newChildScope x m st"
  by (simp add: newChildScope_def)

lemma assignParent_stripValues:
  "assignParent (stripValues x) (Some (stripValues y))
     = map_sum id (map_prod stripValues (map_option stripValues)) (assignParent x (Some y))"
  by (simp add: assignParent_def Let_def)

lemma newModule_ctorsOnly:
  "newModule E (ctorsOnly m) s st = map_sum id (map_prod stripValues id) (newModule E m s st)"
  "newModule_imports E (stripValues modl) (map ctorsOnly ms) st
     = map_sum id (map_prod stripValues id) (newModule_imports E modl ms st)"
proof (induction E m s st and E modl ms st rule: newModule_newModule_imports.induct)
  case (1 E m s st)
  show ?case
  proof (cases "registerProviders m s st")
    case (Inl e)
    then show ?thesis by simp
  next
    case (Inr st1)
    note p = this
    show ?thesis
    proof (cases "registerControllers E m s st1")
      case (Inl e)
      with p show ?thesis by simp
    next
      case (Inr r)
      obtain ctrls st2 where r: "r = (ctrls, st2)" by (cases r)
      have "stripValues (mk_module m s None []) = mk_module (ctorsOnly m) s None []"
        by simp
      with "1.IH" [OF refl p Inr r [symmetric]] p Inr r show ?thesis
        by (simp del: stripValues.simps)
    qed
  qed
next
  case (2 E modl st)
  show ?case by simp
next
  case (3 E modl imported rest st)
  obtain s st0 where sc: "newChildScope modl imported st = (s, st0)"
    by (metis surj_pair)
  show ?case
  proof (cases "newModule E imported s st0")
    case (Inl e)
    with sc "3.IH"(1) [OF sc [symmetric]] show ?thesis by simp
  next
    case (Inr r)
    obtain importedMod st1 where r: "r = (importedMod, st1)" by (cases r)
    obtain importedMod1 modl1 where
      a: "assignParent importedMod (Some modl) = Inr (importedMod1, Some modl1)"
      by (simp add: assignParent_def Let_def)
    have a': "assignParent (stripValues importedMod) (Some (stripValues modl))
        = Inr (stripValues importedMod1, Some (stripValues modl1))"
      using a by (simp add: assignParent_stripValues)
    show ?thesis
    proof (cases "registerExportedProviders importedMod1 st1")
      case (Inl e)
      with sc Inr r a a' "3.IH"(1) [OF sc [symmetric]] show ?thesis by simp
    next
      case (Inr st2)
      note x = this
      from "3.IH"(2) [OF sc [symmetric] \<open>newModule E imported s st0 = Inr r\<close> r [symmetric] a refl x,
          unfolded option.case]
      have "newModule_imports E (stripValues modl1) (map ctorsOnly rest) st2
          = map_sum id (map_prod stripValues id) (newModule_imports E modl1 rest st2)" .
      with sc \<open>newModule E imported s st0 = Inr r\<close> r a a' x "3.IH"(1) [OF sc [symmetric]]
      show ?thesis by (simp add: id_def)
    qed
  qed
qed

lemma New_ctorsOnly:
  "New E (ctorsOnly m) = map_sum id (map_prod stripValues id) (New E m)"
proof (cases "Provide [] HttpServerCtor False (dig_New :: ('a, 'b) state)")
  case (Inl e)
  then show ?thesis by (simp add: New_def)
next
  case (Inr st)
  obtain s st1 where sc: "Scope [] (mToken m) st = (s, st1)" by (metis surj_pair)
  show ?thesis
    by (cases "newModule E m s st1")
      (auto simp: New_def Inr sc newModule_ctorsOnly simp del: newModule.simps)
qed

lemma modules_eq: "modules m = m # concat (map modules (Imports m))"
  by (cases m) simp

lemma self_modules [simp]: "m \<in> set (modules m)"
  by (cases m) simp

lemma instance_declared:
  "built mi \<Longrightarrow> x \<in> set (instances mi) \<Longrightarrow> Module x \<in> set (modules (Module mi))"
proof (induction mi)
  case (mk_module m s p kids)
  show ?case
  proof (cases "x = mk_module m s p kids")
    case True
    then show ?thesis by simp
  next
    case False
    with mk_module.prems obtain k where k: "k \<in> set kids" "x \<in> set (instances k)"
      by auto
    have "built k" using mk_module.prems(1) k(1) by (simp add: list_all_iff)
    from mk_module.IH [OF k(1) this k(2)] have "Module x \<in> set (modules (Module k))" .
    moreover have "Imports m = map Module kids"
      using mk_module.prems(1) by simp
    then have "Module k \<in> set (Imports m)"
      using k(1) by simp
    ultimately show ?thesis
      by (subst modules_eq) auto
  qed
qed

lemma placement_key_declared:
  assumes "built mi" and "(a, q) \<in> set (placements mi)"
  shows "pProvides q \<in> set (ctorKeys (Module mi))"
proof -
  from placement_origin [OF assms(2)] obtain x where
    x: "x \<in> set (instances mi)" "q \<in> set (ProvidersCtors (Module x)) \<or>
        (\<exists>k\<in>set (mimports x). q \<in> set (ExportsCtors (Module k)))"
    by blast
  from x(2) obtain y where y: "y \<in> set (instances mi)"
    "q \<in> set (ProvidersCtors (Module y)) \<or> q \<in> set (ExportsCtors (Module y))"
    using x(1) kid_instance by blast
  from instance_declared [OF assms(1) y(1)] y(2) show ?thesis
    by (auto simp: ctorKeys_def)
qed

text \<open>
  Claim C9.  The build leaves the same error, or the same container, server and store,
  whether or not the declarations hold providers and exports given as values; and after
  a successful build a type that no constructor of the declarations provides is
  resolvable from no scope.
\<close>

theorem value_fields_ignored:
  "map_sum id snd (New E (ctorsOnly m)) = map_sum id snd (New E m)
   \<and> (routes_keep_providers E \<and> New E m = Inr (app, st) \<and> k \<notin> set (ctorKeys m)
        \<and> k \<noteq> HttpServerKey \<longrightarrow> \<not> resolvable st S k)"
proof
  show "map_sum id snd (New E (ctorsOnly m)) = map_sum id snd (New E m)"
    by (cases "New E m") (auto simp: New_ctorsOnly)
  show "routes_keep_providers E \<and> New E m = Inr (app, st) \<and> k \<notin> set (ctorKeys m)
        \<and> k \<noteq> HttpServerKey \<longrightarrow> \<not> resolvable st S k"
  proof (intro impI notI)
    assume h: "routes_keep_providers E \<and> New E m = Inr (app, st) \<and> k \<notin> set (ctorKeys m)
        \<and> k \<noteq> HttpServerKey" and r: "resolvable st S k"
    from h have E: "routes_keep_providers E" and N: "New E m = Inr (app, st)" by simp_all
    from r obtain a q where q: "q \<in> set (providers st a)" "pProvides q = k"
      by (auto simp: resolvable_iff)
    have "q \<noteq> HttpServerCtor" using h q(2) by (auto simp: HttpServerCtor_def)
    with q(1) have "(a, q) \<in> set (placements app)"
      using New_placements(5) [OF E N, of a] by (auto split: if_splits)
    from placement_key_declared [OF New_placements(4) [OF E N] this]
    show False using h q(2) New_placements(1) [OF E N] by simp
  qed
qed

lemma New_valuesApp_value:
  "New gcEnv valuesApp = Inr (projr (New gcEnv valuesApp))"
  by (simp add: valuesApp_def valuesModule_def plainModule_def serviceCtor_def build_defs)

theorem value_fields_ignored_witness:
  "Providers valuesModule = [''*a.Values''] \<and> Exports valuesModule = [''*a.Values'']
   \<and> \<not> resolvable (snd (projr (New gcEnv valuesApp))) [0, 0] ''*a.Values''
   \<and> \<not> resolvable (snd (projr (New gcEnv valuesApp))) [0] ''*a.Values''
   \<and> map_sum id snd (New gcEnv (ctorsOnly valuesApp)) = map_sum id snd (New gcEnv valuesApp)"
proof -
  let ?app = "fst (projr (New gcEnv valuesApp))" and ?st = "snd (projr (New gcEnv valuesApp))"
  have k: "''*a.Values'' \<notin> set (ctorKeys valuesApp)" "''*a.Values'' \<noteq> HttpServerKey"
    by (simp_all add: ctorKeys_def valuesApp_def valuesModule_def plainModule_def
        serviceCtor_def HttpServerKey_def)
  have N: "New gcEnv valuesApp = Inr (?app, ?st)"
    using New_valuesApp_value by simp
  have h: "routes_keep_providers gcEnv \<and> New gcEnv valuesApp = Inr (?app, ?st)
      \<and> ''*a.Values'' \<notin> set (ctorKeys valuesApp) \<and> ''*a.Values'' \<noteq> HttpServerKey"
    using gcEnv_keeps_providers N k by blast
  have 1: "\<not> resolvable ?st [0, 0] ''*a.Values''"
    using value_fields_ignored [of gcEnv valuesApp ?app ?st "''*a.Values''" "[0, 0]"] h
    by blast
  have 2: "\<not> resolvable ?st [0] ''*a.Values''"
    using value_fields_ignored [of gcEnv valuesApp ?app ?st "''*a.Values''" "[0]"] h
    by blast
  have 3: "map_sum id snd (New gcEnv (ctorsOnly valuesApp)) = map_sum id snd (New gcEnv valuesApp)"
    using value_fields_ignored [of gcEnv valuesApp ?app ?st "''*a.Values''" "[0]"]
    by blast
  have 4: "Providers valuesModule = [''*a.Values''] \<and> Exports valuesModule = [''*a.Values'']"
    by (simp add: valuesModule_def)
  show ?thesis
    by (intro conjI conjunct1 [OF 4] conjunct2 [OF 4] 1 2 3)
qed


section \<open>The build fails with a staged error or succeeds as a whole\<close>

lemma buildStage_simps [simp]:
  "buildStage ''error registering providers: ''"
  "buildStage ''error registering controllers: ''"
  "buildStage ''error registering exports: ''"
  by (simp_all add: buildStage_def)







section \<open>The order of the calls of the build\<close>

lemma ctl_ext_refl [simp]: "ctl_ext st st"
  by (simp add: ctl_ext_def)





























section \<open>The guards of the controllers of a module accumulate\<close>

lemma cells_take: "cells h s = take (len s) (h ! array s)"
  by (simp add: cells_def)

lemma cells_length: "wf_slice h s \<Longrightarrow> length (cells h s) = len s"
  by (cases "cap s = 0") (auto simp: cells_def wf_slice_def)

lemma cells_kept:
  assumes "prefix h h'" and "wf_slice h s"
  shows "cells h' s = cells h s" and "wf_slice h' s"
proof -
  from assms(1) obtain hs where h': "h' = h @ hs" by (auto simp: prefix_def)
  show "cells h' s = cells h s"
    using assms(2) by (cases "cap s = 0") (auto simp: cells_def wf_slice_def h' nth_append)
  show "wf_slice h' s"
    using assms(2) by (auto simp: wf_slice_def h' nth_append)
qed

lemma prefix_update:
  assumes "prefix h0 h" and "length h0 \<le> a"
  shows "prefix h0 (h[a := v])"
proof -
  from assms(1) obtain r where "h = h0 @ r" by (auto simp: prefix_def)
  with assms(2) show ?thesis by (simp add: list_update_append)
qed

lemma append_slice_props:
  assumes wf: "wf_slice h s" and a: "append_slice gr h s xs = (s', h')"
    and base: "prefix h0 h" and own: "cap s = 0 \<or> length h0 \<le> array s"
  shows "wf_slice h' s'" and "cells h' s' = cells h s @ map Some xs"
    and "cells h' s = cells h s" and "wf_slice h' s"
    and "prefix h0 h'" and "cap s' = 0 \<or> length h0 \<le> array s'"
proof -
  have l: "length (cells h s) = len s" using wf by (rule cells_length)
  consider (none) "xs = []"
    | (place) "xs \<noteq> []" "len s + length xs \<le> cap s"
    | (alloc) "xs \<noteq> []" "\<not> len s + length xs \<le> cap s"
    by blast
  then have "wf_slice h' s' \<and> cells h' s' = cells h s @ map Some xs
    \<and> cells h' s = cells h s \<and> wf_slice h' s
    \<and> prefix h0 h' \<and> (cap s' = 0 \<or> length h0 \<le> array s')"
  proof cases
    case none
    with a wf base own show ?thesis by (simp add: append_slice_def)
  next
    case place
    let ?new = "cells h s @ map Some xs @ drop (len s + length xs) (h ! array s)"
    from place have c: "0 < cap s" by (cases xs) auto
    with wf have i: "array s < length h" and n: "length (h ! array s) = cap s"
      by (auto simp: wf_slice_def)
    from a place have s': "s' = s\<lparr>len := len s + length xs\<rparr>" and h': "h' = h[array s := ?new]"
      by (auto simp: append_slice_def Let_def)
    have nth: "h' ! array s = ?new" and lh: "length h' = length h"
      using i by (simp_all add: h')
    have ln: "length ?new = cap s" using l n place(2) by simp
    have ln': "length (h' ! array s) = cap s" using ln nth by simp
    have 1: "wf_slice h' s'"
      using place(2) i ln' by (simp add: wf_slice_def s' lh)
    have "cells h' s' = take (len s') (h' ! array s')" by (rule cells_take)
    also have "\<dots> = cells h s @ map Some xs" using l by (simp add: s' nth)
    finally have 2: "cells h' s' = cells h s @ map Some xs" .
    have "cells h' s = take (len s) (h' ! array s)" by (rule cells_take)
    also have "\<dots> = cells h s" using l by (simp add: nth)
    finally have 3: "cells h' s = cells h s" .
    have 4: "wf_slice h' s"
      using wf i ln' by (simp add: wf_slice_def lh)
    have 5: "prefix h0 h'"
      using own c base unfolding h' by (intro prefix_update) auto
    have 6: "cap s' = 0 \<or> length h0 \<le> array s'"
      using own by (simp add: s')
    from 1 2 3 4 5 6 show ?thesis by blast
  next
    case alloc
    let ?need = "len s + length xs"
    let ?c = "max ?need (gr (cap s) ?need)"
    let ?new = "cells h s @ map Some xs @ replicate (?c - ?need) None"
    from a alloc have s': "s' = \<lparr>array = length h, len = ?need, cap = ?c\<rparr>"
      and h': "h' = h @ [?new]"
      by (auto simp: append_slice_def Let_def)
    have pos: "0 < ?need" using alloc(1) by (cases xs) auto
    have ln: "length ?new = ?c" using l by simp
    have 1: "wf_slice h' s'"
      using ln by (simp add: wf_slice_def s' h')
    have "cells h' s' = take (len s') (h' ! array s')" by (rule cells_take)
    also have "\<dots> = cells h s @ map Some xs" using l by (simp add: s' h')
    finally have 2: "cells h' s' = cells h s @ map Some xs" .
    have p: "prefix h h'" by (simp add: h')
    have 3: "cells h' s = cells h s" and 4: "wf_slice h' s"
      using cells_kept [OF p wf] by simp_all
    have 5: "prefix h0 h'" using base p by (rule prefix_order.trans)
    have 6: "cap s' = 0 \<or> length h0 \<le> array s'"
      using base by (simp add: s' prefix_length_le)
    from 1 2 3 4 5 6 show ?thesis by blast
  qed
  then show "wf_slice h' s'" and "cells h' s' = cells h s @ map Some xs"
    and "cells h' s = cells h s" and "wf_slice h' s"
    and "prefix h0 h'" and "cap s' = 0 \<or> length h0 \<le> array s'"
    by simp_all
qed

text \<open>When \<open>getGuards\<close> returns, the slice it returns holds the controller's guards
  followed by the route's guards; a later \<open>append\<close> to the guards of the same
  controller may still write into its backing array.\<close>

lemma getGuards_at_return:
  assumes "wf_slice h (guards c)" and "getGuards E c r h = (gs, h')"
  shows "readSlice h' gs = readSlice h (guards c) @ readSlice h (rguards r)"
proof -
  have "cells h' gs = cells h (guards c) @ map Some (readSlice h (rguards r))"
    by (rule append_slice_props(2) [OF assms(1) assms(2) [unfolded getGuards_def], of "[]"])
      simp_all
  then show ?thesis by (simp add: readSlice_def comp_def)
qed

lemma appendGuards_props:
  assumes "appendGuards E c gs st = Inr (c', st')"
    and "wf_slice (arrays st) (guards c)" and "prefix h0 (arrays st)"
    and "cap (guards c) = 0 \<or> length h0 \<le> array (guards c)"
  shows "wf_slice (arrays st') (guards c')
     \<and> cells (arrays st') (guards c')
         = cells (arrays st) (guards c) @ map (\<lambda>g. Some (projr (newGuard E g))) gs
     \<and> prefix h0 (arrays st')
     \<and> (cap (guards c') = 0 \<or> length h0 \<le> array (guards c'))
     \<and> Controller c' = Controller c \<and> module_scope c' = module_scope c
     \<and> groups st' = groups st"
  using assms
proof (induction gs arbitrary: c st)
  case Nil
  then show ?case by simp
next
  case (Cons grd rest)
  from Cons.prems(1) obtain g sl h where
    g: "newGuard E grd = Inr g" and
    a: "append_slice (grow E) (arrays st) (guards c) [g] = (sl, h)" and
    r: "appendGuards E (c\<lparr>guards := sl\<rparr>) rest (st\<lparr>arrays := h\<rparr>) = Inr (c', st')"
    by (auto split: sum.splits prod.splits)
  note p = append_slice_props [OF Cons.prems(2) a Cons.prems(3,4)]
  from Cons.IH [OF r] p(1,5,6)
  have "wf_slice (arrays st') (guards c')
     \<and> cells (arrays st') (guards c')
         = cells h sl @ map (\<lambda>g. Some (projr (newGuard E g))) rest
     \<and> prefix h0 (arrays st')
     \<and> (cap (guards c') = 0 \<or> length h0 \<le> array (guards c'))
     \<and> Controller c' = Controller c \<and> module_scope c' = module_scope c
     \<and> groups st' = groups st"
    by simp
  with p(2) g show ?case by simp
qed

lemma guardGroup_append:
  "groups st' s groupGuards = groups st s groupGuards @ [GuardMember g]
     \<Longrightarrow> guardGroup st' s = guardGroup st s @ [g]"
  by (simp add: guardGroup_def)

lemma ProvideGroup_guard:
  "ProvideGroup s groupGuards (GuardMember g) st = Inr st' \<Longrightarrow>
     guardGroup st' s = guardGroup st s @ [g] \<and> arrays st' = arrays st"
  by (auto simp: ProvideGroup_def guardGroup_def split: if_splits)

lemma provideGuards_group:
  "provideGuards E s gs st = Inr st' \<Longrightarrow>
     guardGroup st' s = guardGroup st s @ map guardInstance gs \<and> arrays st' = arrays st"
proof (induction gs arbitrary: st)
  case Nil
  then show ?case by simp
next
  case (Cons g rest)
  from Cons.prems obtain st1 where
    1: "ProvideGroup s groupGuards (GuardMember (guardInstance g)) st = Inr st1" and
    2: "provideGuards E s rest st1 = Inr st'"
    by (auto split: sum.splits)
  from ProvideGroup_guard [OF 1] Cons.IH [OF 2] show ?case by simp
qed

lemma provideGuardsCtors_group:
  "provideGuardsCtors s gs st = Inr st' \<Longrightarrow>
     guardGroup st' s = guardGroup st s @ gs \<and> arrays st' = arrays st"
proof (induction gs arbitrary: st)
  case Nil
  then show ?case by simp
next
  case (Cons g rest)
  from Cons.prems obtain st1 where
    1: "ProvideGroup s groupGuards (GuardMember g) st = Inr st1" and
    2: "provideGuardsCtors s rest st1 = Inr st'"
    by (auto split: sum.splits)
  from ProvideGroup_guard [OF 1] Cons.IH [OF 2] show ?case by simp
qed

lemma allOrError_map:
  "allOrError (map f xs) = Inr vs \<Longrightarrow> vs = map (\<lambda>x. projr (f x)) xs \<and> (\<forall>x\<in>set xs. \<not> isl (f x))"
  by (induction xs arbitrary: vs) (auto split: sum.splits)

lemma construct_Inr:
  "\<not> isl (construct st s needs result) \<Longrightarrow> construct st s needs result = result"
  by (auto simp: construct_def split: list.splits)

lemma guard_constructs:
  "concat (map (\<lambda>x. case x of GuardMember g \<Rightarrow> [f g] | ControllerMember c \<Rightarrow> []) ms)
     = map f (concat (map (\<lambda>x. case x of GuardMember g \<Rightarrow> [g] | ControllerMember c \<Rightarrow> []) ms))"
  by (induction ms) (auto split: member.splits)

lemma Invoke_guardGroupInput_values:
  assumes "Invoke_guardGroupInput s st = Inr (input, st')"
  shows "input = map (\<lambda>g. projr (gResult g)) (guardGroup st s)"
    and "groups st' = groups st" and "arrays st' = arrays st"
proof -
  let ?f = "\<lambda>g. construct st s (gNeeds g) (gResult g)"
  from assms have a: "allOrError (map ?f (guardGroup st s)) = Inr input"
    and st': "st' = st\<lparr>calls := calls st @ [CallInvoke s]\<rparr>"
    by (auto simp: Invoke_guardGroupInput_def guardGroup_def guard_constructs [of ?f]
        split: sum.splits)
  from allOrError_map [OF a] have "input = map (\<lambda>g. projr (?f g)) (guardGroup st s)"
    and "\<forall>g\<in>set (guardGroup st s). \<not> isl (?f g)" by simp_all
  then show "input = map (\<lambda>g. projr (gResult g)) (guardGroup st s)"
    by (simp add: construct_Inr)
  show "groups st' = groups st" and "arrays st' = arrays st"
    by (simp_all add: st')
qed

lemma wf_nilSlice [simp]: "wf_slice h nilSlice" "cells h nilSlice = []" "cap nilSlice = 0"
  by (simp_all add: wf_slice_def nilSlice_def cells_def)

lemma registerGuards_props:
  assumes r: "registerGuards E c st = Inr (c', st')" and nil: "guards c = nilSlice"
  shows "guardGroup st' (module_scope c)
           = guardGroup st (module_scope c) @ declaredGuards (Controller c)"
    and "cells (arrays st') (guards c')
           = map (\<lambda>g. Some (resolved E g)) (guardGroup st' (module_scope c))"
    and "wf_slice (arrays st') (guards c')" and "prefix (arrays st) (arrays st')"
    and "cap (guards c') = 0 \<or> length (arrays st) \<le> array (guards c')"
    and "Controller c' = Controller c" and "module_scope c' = module_scope c"
proof -
  let ?s = "module_scope c"
  from r obtain st1 st2 input st3 where
    1: "provideGuards E ?s (Guards (Controller c)) st = Inr st1" and
    2: "provideGuardsCtors ?s (GuardsCtors (Controller c)) st1 = Inr st2" and
    3: "Invoke_guardGroupInput ?s st2 = Inr (input, st3)" and
    4: "appendGuards E c input st3 = Inr (c', st')"
    by (auto simp: registerGuards_def split: sum.splits)
  note g1 = provideGuards_group [OF 1] and g2 = provideGuardsCtors_group [OF 2]
    and g3 = Invoke_guardGroupInput_values [OF 3]
  have g23: "guardGroup st3 ?s = guardGroup st2 ?s"
    using g3(2) by (simp add: guardGroup_def)
  have g: "guardGroup st3 ?s = guardGroup st ?s @ declaredGuards (Controller c)"
    using g1 g2 g23 by (simp add: declaredGuards_def)
  have gi: "input = map (\<lambda>g. projr (gResult g)) (guardGroup st3 ?s)"
    using g3(1) g23 by simp
  have h: "arrays st3 = arrays st" using g1 g2 g3(3) by simp
  have "wf_slice (arrays st3) (guards c)" "prefix (arrays st) (arrays st3)"
    "cap (guards c) = 0 \<or> length (arrays st) \<le> array (guards c)"
    by (simp_all add: nil h)
  note p = appendGuards_props [OF 4 this]
  have gg: "guardGroup st' ?s = guardGroup st3 ?s"
    using p by (simp add: guardGroup_def)
  show "guardGroup st' ?s = guardGroup st ?s @ declaredGuards (Controller c)"
    using gg g by simp
  have "cells (arrays st') (guards c') = map (\<lambda>g. Some (projr (newGuard E g))) input"
    using p by (simp add: nil)
  then show "cells (arrays st') (guards c') = map (\<lambda>g. Some (resolved E g)) (guardGroup st' ?s)"
    by (simp add: gi gg resolved_def comp_def)
  show "wf_slice (arrays st') (guards c')" and "prefix (arrays st) (arrays st')"
    and "cap (guards c') = 0 \<or> length (arrays st) \<le> array (guards c')"
    and "Controller c' = Controller c" and "module_scope c' = module_scope c"
    using p by simp_all
qed


lemma getHandler_props:
  assumes "getHandler E c r st = (f, st')"
    and "wf_slice (arrays st) (guards c)" and "prefix h0 (arrays st)"
    and "cap (guards c) = 0 \<or> length h0 \<le> array (guards c)"
  shows "cells (arrays st') (guards c) = cells (arrays st) (guards c)"
    and "wf_slice (arrays st') (guards c)" and "prefix h0 (arrays st')"
    and "groups st' = groups st"
proof -
  from assms(1) obtain sl h where
    a: "append_slice (grow E) (arrays st) (guards c) (readSlice (arrays st) (rguards r)) = (sl, h)"
    and st': "st' = st\<lparr>arrays := h\<rparr>"
    by (auto simp: getHandler_def getGuards_def split: prod.splits)
  note p = append_slice_props [OF assms(2) a assms(3,4)]
  show "cells (arrays st') (guards c) = cells (arrays st) (guards c)"
    and "wf_slice (arrays st') (guards c)" and "prefix h0 (arrays st')"
    and "groups st' = groups st"
    using p by (simp_all add: st')
qed

lemma registerRoutes_loop_props:
  assumes "routes_extend E" and "registerRoutes_loop E c rs st = Inr (c', st')"
    and "wf_slice (arrays st) (guards c)" and "prefix h0 (arrays st)"
    and "cap (guards c) = 0 \<or> length h0 \<le> array (guards c)"
  shows "guards c' = guards c \<and> Controller c' = Controller c
     \<and> cells (arrays st') (guards c) = cells (arrays st) (guards c)
     \<and> wf_slice (arrays st') (guards c) \<and> prefix h0 (arrays st')
     \<and> prefix (guardGroup st (module_scope c)) (guardGroup st' (module_scope c))"
  using assms
proof (induction rs arbitrary: c st)
  case Nil
  then show ?case by simp
next
  case (Cons rCfg rest)
  let ?c1 = "\<lambda>r. c\<lparr>routes := routes c @ [r]\<rparr>"
  from Cons.prems(2) obtain r st1 f st2 where
    1: "newRoute E rCfg c st = Inr (r, st1)" and
    2: "getHandler E (?c1 r) r st1 = (f, st2)" and
    3: "registerRoutes_loop E (?c1 r) rest
          (st2\<lparr>mux := mux st2 @ [(getPath (?c1 r) r, f)]\<rparr>) = Inr (c', st')"
    by (auto simp: Let_def split: sum.splits prod.splits)
  from Cons.prems(1) 1 have
    g1: "prefix (guardGroup st (module_scope c)) (guardGroup st1 (module_scope c))" and
    h1: "prefix (arrays st) (arrays st1)"
    by (auto simp: routes_extend_def)
  note k1 = cells_kept [OF h1 Cons.prems(3)]
  have b1: "prefix h0 (arrays st1)" using Cons.prems(4) h1 by (rule prefix_order.trans)
  have w1: "wf_slice (arrays st1) (guards (?c1 r))" using k1(2) by simp
  have o1: "cap (guards (?c1 r)) = 0 \<or> length h0 \<le> array (guards (?c1 r))"
    using Cons.prems(5) by simp
  note p2 = getHandler_props [OF 2 w1 b1 o1]
  let ?st3 = "st2\<lparr>mux := mux st2 @ [(getPath (?c1 r) r, f)]\<rparr>"
  have w3: "wf_slice (arrays ?st3) (guards (?c1 r))" using p2(2) by simp
  have b3: "prefix h0 (arrays ?st3)" using p2(3) by simp
  from Cons.IH [OF Cons.prems(1) 3 w3 b3 o1]
  have r: "guards c' = guards c \<and> Controller c' = Controller c
     \<and> cells (arrays st') (guards c) = cells (arrays st2) (guards c)
     \<and> wf_slice (arrays st') (guards c) \<and> prefix h0 (arrays st')
     \<and> prefix (guardGroup ?st3 (module_scope c)) (guardGroup st' (module_scope c))"
    by simp
  have g3: "guardGroup ?st3 (module_scope c) = guardGroup st1 (module_scope c)"
    using p2(4) by (simp add: guardGroup_def)
  have "prefix (guardGroup st (module_scope c)) (guardGroup st' (module_scope c))"
    using g1 r g3 by (metis prefix_order.trans)
  moreover have "cells (arrays st') (guards c) = cells (arrays st) (guards c)"
    using r p2(1) k1(1) by simp
  ultimately show ?case using r by simp
qed

lemma Invoke_HttpServer_same:
  "Invoke_HttpServer s st = Inr st' \<Longrightarrow> groups st' = groups st \<and> arrays st' = arrays st"
  by (auto simp: Invoke_HttpServer_def split: if_splits)

lemma newController_props:
  assumes E: "routes_extend E" and n: "newController E cfg s st = Inr (c, st')"
  shows "Controller c = cfg"
    and "prefix (guardGroup st s @ declaredGuards cfg) (guardGroup st' s)"
    and "readSlice (arrays st') (guards c) = map (resolved E) (guardGroup st s @ declaredGuards cfg)"
    and "wf_slice (arrays st') (guards c)" and "prefix (arrays st) (arrays st')"
proof -
  let ?ctrl = "\<lparr>Controller = cfg, module_scope = s, routes = [], guards = nilSlice\<rparr>"
  from n obtain c1 st1 st2 where
    1: "registerGuards E ?ctrl st = Inr (c1, st1)" and
    2: "Invoke_HttpServer (module_scope c1) st1 = Inr st2" and
    3: "registerRoutes_loop E c1 (RoutesCfgs (Controller c1)) st2 = Inr (c, st')"
    by (auto simp: newController_def registerRoutes_def Let_def split: sum.splits)
  have nil: "guards ?ctrl = nilSlice" by simp
  note p1 = registerGuards_props [OF 1 nil]
  have c1: "Controller c1 = cfg" "module_scope c1 = s" using p1(6,7) by simp_all
  note s2 = Invoke_HttpServer_same [OF 2]
  have w2: "wf_slice (arrays st2) (guards c1)" and b2: "prefix (arrays st) (arrays st2)"
    and o2: "cap (guards c1) = 0 \<or> length (arrays st) \<le> array (guards c1)"
    using p1(3,4,5) s2 by simp_all
  from registerRoutes_loop_props [OF E 3 w2 b2 o2] c1
  have r: "guards c = guards c1" "Controller c = cfg"
    "cells (arrays st') (guards c1) = cells (arrays st2) (guards c1)"
    "wf_slice (arrays st') (guards c1)" "prefix (arrays st) (arrays st')"
    "prefix (guardGroup st2 s) (guardGroup st' s)"
    by simp_all
  have g2: "guardGroup st2 s = guardGroup st s @ declaredGuards cfg"
    using p1(1) s2 by (simp add: guardGroup_def)
  show "Controller c = cfg" by (rule r(2))
  show "prefix (guardGroup st s @ declaredGuards cfg) (guardGroup st' s)"
    using r(6) g2 by simp
  have "cells (arrays st') (guards c) = map (\<lambda>g. Some (resolved E g)) (guardGroup st2 s)"
    using r(1,3) p1(2) s2 g2 p1(1) by simp
  then show "readSlice (arrays st') (guards c) = map (resolved E) (guardGroup st s @ declaredGuards cfg)"
    by (simp add: readSlice_def g2 comp_def)
  show "wf_slice (arrays st') (guards c)" using r(1,4) by simp
  show "prefix (arrays st) (arrays st')" by (rule r(5))
qed

lemma newControllers_props:
  assumes E: "routes_extend E" and n: "newControllers E s cfgs st = Inr (ctrls, st')"
  shows "map Controller ctrls = cfgs \<and> prefix (arrays st) (arrays st')
     \<and> prefix (guardGroup st s) (guardGroup st' s)
     \<and> (\<forall>j<length ctrls. \<exists>G. readSlice (arrays st') (guards (ctrls ! j))
              = map (resolved E) (G @ declaredGuards (cfgs ! j))
            \<and> prefix (guardGroup st s) G
            \<and> (\<forall>i<j. \<exists>a b. G = a @ declaredGuards (cfgs ! i) @ b))"
  using n
proof (induction cfgs arbitrary: st ctrls)
  case Nil
  then show ?case by simp
next
  case (Cons cfg rest)
  from Cons.prems obtain c st1 cs where
    1: "newController E cfg s st = Inr (c, st1)" and
    2: "newControllers E s rest st1 = Inr (cs, st')" and
    ctrls: "ctrls = c # cs"
    by (auto split: sum.splits)
  note p = newController_props [OF E 1]
  from Cons.IH [OF 2] have
    m: "map Controller cs = rest" and h: "prefix (arrays st1) (arrays st')" and
    g: "prefix (guardGroup st1 s) (guardGroup st' s)" and
    a: "\<forall>j<length cs. \<exists>G. readSlice (arrays st') (guards (cs ! j))
              = map (resolved E) (G @ declaredGuards (rest ! j))
            \<and> prefix (guardGroup st1 s) G
            \<and> (\<forall>i<j. \<exists>a b. G = a @ declaredGuards (rest ! i) @ b)"
    by simp_all
  obtain X where X: "guardGroup st1 s = guardGroup st s @ declaredGuards cfg @ X"
    using p(2) by (auto simp: prefix_def)
  have 0: "readSlice (arrays st') (guards c)
      = map (resolved E) (guardGroup st s @ declaredGuards cfg)"
    using cells_kept(1) [OF h p(4)] p(3) by (simp add: readSlice_def)
  have "\<exists>G. readSlice (arrays st') (guards ((c # cs) ! j))
              = map (resolved E) (G @ declaredGuards ((cfg # rest) ! j))
            \<and> prefix (guardGroup st s) G
            \<and> (\<forall>i<j. \<exists>a b. G = a @ declaredGuards ((cfg # rest) ! i) @ b)"
    if j: "j < length (c # cs)" for j
  proof (cases j)
    case 0
    with \<open>readSlice (arrays st') (guards c) = _\<close> show ?thesis
      by (intro exI [of _ "guardGroup st s"]) simp
  next
    case (Suc j')
    with j a obtain G where G:
      "readSlice (arrays st') (guards (cs ! j')) = map (resolved E) (G @ declaredGuards (rest ! j'))"
      "prefix (guardGroup st1 s) G"
      "\<forall>i<j'. \<exists>a b. G = a @ declaredGuards (rest ! i) @ b"
      by auto
    from G(2) X obtain Z where Z: "G = guardGroup st s @ declaredGuards cfg @ X @ Z"
      by (auto simp: prefix_def)
    have "\<exists>a b. G = a @ declaredGuards ((cfg # rest) ! i) @ b" if "i < Suc j'" for i
    proof (cases i)
      case 0
      with Z show ?thesis by auto
    next
      case (Suc i')
      with that G(3) show ?thesis by auto
    qed
    moreover have "prefix (guardGroup st s) G" using Z by simp
    ultimately show ?thesis using G(1) Suc by (intro exI [of _ G]) simp
  qed
  moreover have "prefix (arrays st) (arrays st')"
    using p(5) h by (rule prefix_order.trans)
  moreover have "prefix (guardGroup st s) (guardGroup st' s)"
    using X g by (auto simp: prefix_def)
  ultimately show ?case using m p(1) ctrls by simp
qed

text \<open>
  Claim C10.  When the controllers of a module are built, the guards of a controller
  built later hold, in this order: the guards an earlier controller declares (its
  instances, then what its constructors return), and at the end the guards the
  controller itself declares.
\<close>

theorem controller_guards_accumulate:
  assumes E: "routes_extend E" and r: "registerControllers E m s st = Inr (ctrls, st')"
    and ij: "i < j" "j < length ctrls"
  shows "\<exists>pre mid. readSlice (arrays st') (guards (ctrls ! j))
     = pre @ map (resolved E) (declaredGuards (Controller (ctrls ! i)))
       @ mid @ map (resolved E) (declaredGuards (Controller (ctrls ! j)))"
proof -
  from r obtain st1 input st2 where
    1: "provideControllers s (ControllersCtors m) st = Inr st1" and
    2: "Invoke_controllerGroupInput s st1 = Inr (input, st2)" and
    3: "newControllers E s input st2 = Inr (ctrls, st')"
    by (auto simp: registerControllers_def split: sum.splits)
  from newControllers_props [OF E 3] ij obtain G where
    m: "map Controller ctrls = input" and
    G: "readSlice (arrays st') (guards (ctrls ! j)) = map (resolved E) (G @ declaredGuards (input ! j))"
      "\<forall>i<j. \<exists>a b. G = a @ declaredGuards (input ! i) @ b"
    by blast
  from G(2) ij obtain a b where ab: "G = a @ declaredGuards (input ! i) @ b" by blast
  have c: "input ! i = Controller (ctrls ! i)" "input ! j = Controller (ctrls ! j)"
    using m ij by (auto simp: nth_map [symmetric] simp del: nth_map)
  show ?thesis
    using G(1) ab c by (intro exI [of _ "map (resolved E) a"] exI [of _ "map (resolved E) b"]) simp
qed


lemma appendRouteGuards_props:
  assumes "appendRouteGuards E r gs st = Inr (r', st')"
    and "wf_slice (arrays st) (rguards r)" and "prefix h0 (arrays st)"
    and "cap (rguards r) = 0 \<or> length h0 \<le> array (rguards r)"
  shows "prefix h0 (arrays st') \<and> groups st' = groups st"
  using assms
proof (induction gs arbitrary: r st)
  case Nil
  then show ?case by simp
next
  case (Cons grd rest)
  from Cons.prems(1) obtain g sl h where
    a: "append_slice (grow E) (arrays st) (rguards r) [g] = (sl, h)" and
    r: "appendRouteGuards E (r\<lparr>rguards := sl\<rparr>) rest (st\<lparr>arrays := h\<rparr>) = Inr (r', st')"
    by (auto split: sum.splits prod.splits)
  note p = append_slice_props [OF Cons.prems(2) a Cons.prems(3,4)]
  from Cons.IH [OF r] p(1,5,6) show ?case by simp
qed

lemma gcEnv_extends: "routes_extend gcEnv"
proof -
  have "prefix (guardGroup st (module_scope c)) (guardGroup st' (module_scope c))
      \<and> prefix (arrays st) (arrays st')"
    if "newRoute gcEnv cfg c st = Inr (r, st')"
    for cfg c r and st st' :: "('a, 'b) state"
  proof -
    from that obtain E' :: "('a, 'b) env" and r0 input where
      a: "appendRouteGuards E' r0 input st = Inr (r, st')" and r0: "rguards r0 = nilSlice"
      by (auto simp: gcEnv_def newRoute_spec_def split: sum.splits)
    have "prefix (arrays st) (arrays st') \<and> groups st' = groups st"
      by (rule appendRouteGuards_props [OF a]) (simp_all add: r0)
    then show ?thesis by (simp add: guardGroup_def)
  qed
  then show ?thesis unfolding routes_extend_def by blast
qed

lemma registerControllers_twoControllers_value:
  "registerControllers gcEnv twoControllers [0] serverProvided
     = Inr (projr (registerControllers gcEnv twoControllers [0] serverProvided))"
  by (simp add: twoControllers_def serverProvided_def build_defs)

theorem controller_guards_accumulate_witness:
  "map (\<lambda>c. readSlice (arrays (snd (projr (registerControllers gcEnv twoControllers [0] serverProvided))))
          (guards c))
     (fst (projr (registerControllers gcEnv twoControllers [0] serverProvided)))
     = [[''A''], [''A'', ''B'', ''C'']]
   \<and> (\<exists>pre mid.
        readSlice (arrays (snd (projr (registerControllers gcEnv twoControllers [0] serverProvided))))
          (guards (fst (projr (registerControllers gcEnv twoControllers [0] serverProvided)) ! 1))
        = pre @ [''A''] @ mid @ [''B'', ''C''])"
proof -
  let ?r = "registerControllers gcEnv twoControllers [0] serverProvided"
  have N: "?r = Inr (fst (projr ?r), snd (projr ?r))"
    using registerControllers_twoControllers_value by simp
  have 1: "map (\<lambda>c. readSlice (arrays (snd (projr ?r))) (guards c)) (fst (projr ?r))
     = [[''A''], [''A'', ''B'', ''C'']]"
    by (simp add: twoControllers_def serverProvided_def build_defs)
  have c: "map Controller (fst (projr ?r)) =
      [\<lparr>Pattern = ''/a'',
         RoutesCfgs = [\<lparr>RoutePattern = ''/x'', Method = ''GET'', Handler = ''x'',
           RouteGuards = [''R''], RouteGuardsCtors = []\<rparr>],
         Guards = [''A''], GuardsCtors = []\<rparr>,
       \<lparr>Pattern = ''/b'', RoutesCfgs = [], Guards = [''B''],
         GuardsCtors = [\<lparr>gType = ''func() *app.Guard'', gValid = True, gNeeds = [],
           gResult = Inr ''C''\<rparr>]\<rparr>]"
    by (simp add: twoControllers_def serverProvided_def build_defs)
  then have l: "length (fst (projr ?r)) = 2"
    by (metis length_map length_Cons list.size(3) numeral_2_eq_2)
  have c0: "Controller (fst (projr ?r) ! 0) = \<lparr>Pattern = ''/a'',
         RoutesCfgs = [\<lparr>RoutePattern = ''/x'', Method = ''GET'', Handler = ''x'',
           RouteGuards = [''R''], RouteGuardsCtors = []\<rparr>],
         Guards = [''A''], GuardsCtors = []\<rparr>"
    and c1: "Controller (fst (projr ?r) ! Suc 0) = \<lparr>Pattern = ''/b'', RoutesCfgs = [], Guards = [''B''],
         GuardsCtors = [\<lparr>gType = ''func() *app.Guard'', gValid = True, gNeeds = [],
           gResult = Inr ''C''\<rparr>]\<rparr>"
    using c l by (simp_all add: nth_map [symmetric] del: nth_map)
  have res: "resolved gcEnv g = projr (gResult g)" for g :: "string GuardConstructor"
    by (simp add: resolved_def gcEnv_def)
  have ij: "(0::nat) < 1" "1 < length (fst (projr ?r))" using l by simp_all
  from controller_guards_accumulate [OF gcEnv_extends N ij]
  have 2: "\<exists>pre mid. readSlice (arrays (snd (projr ?r))) (guards (fst (projr ?r) ! 1))
     = pre @ [''A''] @ mid @ [''B'', ''C'']"
    by (simp add: c0 c1 declaredGuards_def res guardInstance_def)
  show ?thesis by (intro conjI 1 2)
qed

end
